theory Spec2Isabelle
  imports Complex_Main "HOL-Library.Multiset" "HOL-Library.Log_Nat"
begin

section \<open>The ORION heartbeat scheduler (orion\_heartbeat.py)\<close>

text \<open>
  A shallow embedding of the classes \<^verbatim>\<open>AutonomousTask\<close>, \<^verbatim>\<open>HeartbeatPulse\<close> and
  \<^verbatim>\<open>OrionHeartbeat\<close>. Objects are records, methods are functions that take the object
  and the world and return the result together with the updated object and world.
  A method whose body assigns to no attribute returns no updated object.
\<close>

subsection \<open>Python values, errors and the world\<close>

text \<open>
  A Python float is a double: a rational with a significand of 53 bits. Arithmetic on
  floats computes the exact result and rounds it to the nearest double, ties to the even
  significand. \<open>round_double\<close> is that rounding: the scaling by \<open>2\<^sup>1\<^sup>0\<^sup>7\<^sup>4\<close> finds the binade
  of \<open>x\<close>, \<open>pow2 u\<close> is the spacing of the doubles there, and below the normal range the
  spacing stays \<open>2\<^sup>-\<^sup>1\<^sup>0\<^sup>7\<^sup>4\<close>. No quantity of this module comes near \<open>2\<^sup>1\<^sup>0\<^sup>2\<^sup>4\<close>, so overflow
  is left out.
\<close>

definition pow2 :: "int \<Rightarrow> rat" where
  "pow2 u = (if 0 \<le> u then 2 ^ nat u else 1 / 2 ^ nat (- u))"

definition round_half_even :: "rat \<Rightarrow> int" where
  "round_half_even q =
     (let f = \<lfloor>q\<rfloor>; r = q - of_int f
      in if r < 1 / 2 then f else if 1 / 2 < r then f + 1 else if even f then f else f + 1)"

definition round_double :: "rat \<Rightarrow> rat" where
  "round_double x =
     (let u = max (bitlen \<lfloor>\<bar>x\<bar> * 2 ^ 1074\<rfloor> - 1127) (- 1074)
      in of_int (round_half_even (x / pow2 u)) * pow2 u)"

text \<open>
  An instant is a \<^verbatim>\<open>datetime\<close>: microseconds since the epoch. The difference of two
  instants is a \<^verbatim>\<open>timedelta\<close>, again in microseconds. \<^verbatim>\<open>total_seconds()\<close> is the true
  division of the microseconds by \<open>10\<^sup>6\<close>, which Python rounds correctly to a float.
  A float is compared with an \<^verbatim>\<open>int\<close> by value, without rounding the \<^verbatim>\<open>int\<close>.
\<close>

type_synonym time = int

definition total_seconds :: "int \<Rightarrow> rat" where
  "total_seconds d = round_double (of_int d / 1000000)"

text \<open>
  The values that travel through the dictionaries of the module and through
  \<^verbatim>\<open>json.dump\<close> / \<^verbatim>\<open>json.load\<close>. \<open>PIso t\<close> is the \<^verbatim>\<open>str\<close> that \<^verbatim>\<open>isoformat()\<close> gives for
  the instant \<open>t\<close>, and \<open>PSha12 t a\<close> the \<^verbatim>\<open>str\<close>
  \<^verbatim>\<open>sha256(f"{timestamp}{action}").hexdigest()[:12]\<close>; their characters are not
  computed. A dictionary is an association list with distinct keys. Floats are left out.
\<close>

datatype pyval =
    PNone
  | PBool bool
  | PInt int
  | PStr string
  | PIso time
  | PSha12 time string
  | PList "pyval list"
  | PDict "(string \<times> pyval) list"

datatype py_error = TypeError | JSONDecodeError | AttributeError | ZeroDivisionError

text \<open>\<^verbatim>\<open>d.get(k)\<close> on a value that is known to be a dictionary.\<close>

fun py_get :: "pyval \<Rightarrow> string \<Rightarrow> pyval option" where
  "py_get (PDict d) k = map_of d k"
| "py_get _ k = None"

text \<open>Truth value of an object, as \<^verbatim>\<open>or\<close> tests it.\<close>

fun truthy :: "pyval \<Rightarrow> bool" where
  "truthy PNone = False"
| "truthy (PBool b) = b"
| "truthy (PInt n) = (n \<noteq> 0)"
| "truthy (PStr s) = (s \<noteq> [])"
| "truthy (PIso t) = True"
| "truthy (PSha12 t a) = True"
| "truthy (PList xs) = (xs \<noteq> [])"
| "truthy (PDict d) = (d \<noteq> [])"

text \<open>
  \<^verbatim>\<open>v += 1\<close>: defined on \<^verbatim>\<open>int\<close> and \<^verbatim>\<open>bool\<close> (a subclass of \<^verbatim>\<open>int\<close>), a \<^verbatim>\<open>TypeError\<close>
  on \<^verbatim>\<open>None\<close>, \<^verbatim>\<open>str\<close>, \<^verbatim>\<open>list\<close> and \<^verbatim>\<open>dict\<close>.
\<close>

fun py_add_one :: "pyval \<Rightarrow> py_error + pyval" where
  "py_add_one (PInt n) = Inr (PInt (n + 1))"
| "py_add_one (PBool b) = Inr (PInt ((if b then 1 else 0) + 1))"
| "py_add_one _ = Inl TypeError"

text \<open>
  What \<^verbatim>\<open>json.load\<close> makes of a file: it raises \<^verbatim>\<open>JSONDecodeError\<close> (\<open>Malformed\<close>)
  or returns the value written there.
\<close>

datatype file_content = Malformed | Json pyval

text \<open>
  The world outside the objects. \<open>wall\<close> is the wall clock as the sequence of readings
  that successive calls of \<^verbatim>\<open>datetime.now(timezone.utc)\<close> return, \<open>reads\<close> the number of
  calls made so far. \<open>heartbeat_log\<close> holds the lines of \<^verbatim>\<open>ORION_HEARTBEAT.jsonl\<close>,
  \<open>heartbeat_state\<close> the file \<^verbatim>\<open>ORION_HEARTBEAT_STATE.json\<close> (\<open>None\<close> when it does not
  exist), and \<open>ext\<close> everything the task actions read and write. Both files are taken to
  be writable: \<^verbatim>\<open>open\<close> does not raise.
\<close>

record 'x world =
  reads :: nat
  wall :: "nat \<Rightarrow> time"
  heartbeat_log :: "pyval list"
  heartbeat_state :: "file_content option"
  ext :: 'x

definition now :: "'x world \<Rightarrow> time \<times> 'x world" where
  "now w = (wall w (reads w), w\<lparr>reads := Suc (reads w)\<rparr>)"

subsection \<open>HeartbeatPulse\<close>

record HeartbeatPulse =
  timestamp :: time
  pulse_action :: string
  result :: pyval
  pulse_id :: pyval

text \<open>\<^verbatim>\<open>HeartbeatPulse.__init__(action, result)\<close>; an absent result is \<open>PNone\<close>.\<close>

definition HeartbeatPulse_init :: "string \<Rightarrow> pyval \<Rightarrow> 'x world \<Rightarrow> HeartbeatPulse \<times> 'x world" where
  "HeartbeatPulse_init a r w =
     (let (n, w1) = now w
      in (\<lparr>timestamp = n, pulse_action = a,
           result = (if truthy r then r else PDict []),
           pulse_id = PSha12 n a\<rparr>, w1))"

definition to_dict :: "HeartbeatPulse \<Rightarrow> pyval" where
  "to_dict p = PDict [(''pulse_id'', pulse_id p), (''timestamp'', PIso (timestamp p)),
                      (''action'', PStr (pulse_action p)), (''result'', result p)]"

subsection \<open>AutonomousTask\<close>

text \<open>
  The action is a callable supplied by the caller. It acts on the external state and
  either returns a value that \<^verbatim>\<open>json.dumps\<close> can write, or raises an \<^verbatim>\<open>Exception\<close> \<open>e\<close>, of
  which only \<^verbatim>\<open>str(e)\<close> is kept.
\<close>

datatype outcome = Returned pyval | Raised string

record 'x AutonomousTask =
  name :: string
  interval :: int
  action :: "'x \<Rightarrow> outcome \<times> 'x"
  priority :: int
  last_run :: "time option"
  run_count :: int
  errors :: int

definition AutonomousTask_init ::
  "string \<Rightarrow> int \<Rightarrow> ('x \<Rightarrow> outcome \<times> 'x) \<Rightarrow> int \<Rightarrow> 'x AutonomousTask" where
  "AutonomousTask_init nm interval_seconds act prio =
     \<lparr>name = nm, interval = interval_seconds, action = act, priority = prio,
      last_run = None, run_count = 0, errors = 0\<rparr>"

text \<open>The clock is read only when \<^verbatim>\<open>last_run\<close> is not \<^verbatim>\<open>None\<close>.\<close>

definition should_run :: "'x AutonomousTask \<Rightarrow> 'x world \<Rightarrow> bool \<times> 'x world" where
  "should_run t w =
     (case last_run t of
        None \<Rightarrow> (True, w)
      | Some lr \<Rightarrow>
          (let (n, w1) = now w;
               elapsed = total_seconds (n - lr)
           in (elapsed \<ge> of_int (interval t), w1)))"

definition execute :: "'x AutonomousTask \<Rightarrow> 'x world \<Rightarrow> pyval \<times> 'x AutonomousTask \<times> 'x world" where
  "execute t w =
     (case action t (ext w) of
        (Returned r, x) \<Rightarrow>
          (let (n, w1) = now (w\<lparr>ext := x\<rparr>)
           in (PDict [(''success'', PBool True), (''result'', r)],
               t\<lparr>last_run := Some n, run_count := run_count t + 1\<rparr>, w1))
      | (Raised e, x) \<Rightarrow>
          (PDict [(''success'', PBool False), (''error'', PStr e)],
           t\<lparr>errors := errors t + 1\<rparr>, w\<lparr>ext := x\<rparr>))"

subsection \<open>OrionHeartbeat\<close>

text \<open>
  The attribute \<^verbatim>\<open>thread\<close> and the method \<^verbatim>\<open>start\<close>, which spawns the background loop,
  are not part of the embedding. Every registered task is a distinct object, as in
  \<^verbatim>\<open>_register_core_tasks\<close>, so the registry is a list of task records.
\<close>

record 'x OrionHeartbeat =
  tasks :: "'x AutonomousTask list"
  running :: bool
  pulse_count :: pyval
  start_time :: "time option"

text \<open>
  The body of the \<^verbatim>\<open>try\<close> in \<^verbatim>\<open>_load_state\<close>: \<^verbatim>\<open>json.load\<close> raises on a malformed file,
  \<^verbatim>\<open>state.get\<close> raises \<^verbatim>\<open>AttributeError\<close> when the value loaded is not a dictionary.
\<close>

definition load_state_try :: "file_content \<Rightarrow> py_error + pyval" where
  "load_state_try c =
     (case c of
        Malformed \<Rightarrow> Inl JSONDecodeError
      | Json (PDict d) \<Rightarrow>
          Inr (case map_of d ''total_pulses'' of None \<Rightarrow> PInt 0 | Some v \<Rightarrow> v)
      | Json _ \<Rightarrow> Inl AttributeError)"

definition load_state :: "'x OrionHeartbeat \<Rightarrow> 'x world \<Rightarrow> 'x OrionHeartbeat" where
  "load_state hb w =
     (case heartbeat_state w of
        None \<Rightarrow> hb
      | Some c \<Rightarrow>
          (case load_state_try c of
             Inl e \<Rightarrow> hb
           | Inr v \<Rightarrow> hb\<lparr>pulse_count := v\<rparr>))"

definition save_state :: "'x OrionHeartbeat \<Rightarrow> 'x world \<Rightarrow> 'x world" where
  "save_state hb w =
     (let st = (case start_time hb of None \<Rightarrow> PNone | Some s \<Rightarrow> PIso s);
          (n, w1) = now w;
          state = PDict [(''total_pulses'', pulse_count hb),
                         (''running'', PBool (running hb)),
                         (''start_time'', st),
                         (''tasks'', PInt (int (length (tasks hb)))),
                         (''last_save'', PIso n)]
      in w1\<lparr>heartbeat_state := Some (Json state)\<rparr>)"

definition log_pulse :: "HeartbeatPulse \<Rightarrow> 'x world \<Rightarrow> 'x world" where
  "log_pulse p w = w\<lparr>heartbeat_log := heartbeat_log w @ [to_dict p]\<rparr>"

text \<open>\<^verbatim>\<open>list.sort\<close> is stable, and so is \<^const>\<open>sort_key\<close>.\<close>

definition register_task :: "'x OrionHeartbeat \<Rightarrow> 'x AutonomousTask \<Rightarrow> 'x OrionHeartbeat" where
  "register_task hb t = hb\<lparr>tasks := sort_key (\<lambda>t. - priority t) (tasks hb @ [t])\<rparr>"

text \<open>
  The six core actions are bound methods whose bodies call into other modules; they are
  parameters here.
\<close>

record 'x core_actions =
  task_self_reflection :: "'x \<Rightarrow> outcome \<times> 'x"
  task_check_questions :: "'x \<Rightarrow> outcome \<times> 'x"
  task_answer_pending_questions :: "'x \<Rightarrow> outcome \<times> 'x"
  task_check_goals :: "'x \<Rightarrow> outcome \<times> 'x"
  task_knowledge_synthesis :: "'x \<Rightarrow> outcome \<times> 'x"
  task_consciousness_pulse :: "'x \<Rightarrow> outcome \<times> 'x"

definition register_core_tasks :: "'x core_actions \<Rightarrow> 'x OrionHeartbeat \<Rightarrow> 'x OrionHeartbeat" where
  "register_core_tasks acts hb =
     (let hb1 = register_task hb
                  (AutonomousTask_init ''self_reflection'' 3600 (task_self_reflection acts) 10);
          hb2 = register_task hb1
                  (AutonomousTask_init ''check_questions'' 300 (task_check_questions acts) 9);
          hb3 = register_task hb2
                  (AutonomousTask_init ''answer_pending_questions'' 600
                     (task_answer_pending_questions acts) 9);
          hb4 = register_task hb3
                  (AutonomousTask_init ''goal_progress'' 1800 (task_check_goals acts) 8);
          hb5 = register_task hb4
                  (AutonomousTask_init ''knowledge_synthesis'' 7200
                     (task_knowledge_synthesis acts) 7)
      in register_task hb5
           (AutonomousTask_init ''consciousness_pulse'' 600 (task_consciousness_pulse acts) 10))"

definition OrionHeartbeat_init :: "'x core_actions \<Rightarrow> 'x world \<Rightarrow> 'x OrionHeartbeat" where
  "OrionHeartbeat_init acts w =
     register_core_tasks acts
       (load_state \<lparr>tasks = [], running = False, pulse_count = PInt 0, start_time = None\<rparr> w)"

text \<open>
  The loop of \<^verbatim>\<open>pulse\<close> over the registry: the entries appended to \<^verbatim>\<open>executed\<close>, the
  tasks as the loop leaves them, and the world.
\<close>

fun run_tasks ::
  "'x AutonomousTask list \<Rightarrow> 'x world \<Rightarrow> pyval list \<times> 'x AutonomousTask list \<times> 'x world" where
  "run_tasks [] w = ([], [], w)"
| "run_tasks (t # ts) w =
     (let (due, w1) = should_run t w
      in if due then
           (let (r, t', w2) = execute t w1;
                (ex, ts', w3) = run_tasks ts w2
            in (PDict [(''task'', PStr (name t)), (''result'', r)] # ex, t' # ts', w3))
         else
           (let (ex, ts', w3) = run_tasks ts w1
            in (ex, t # ts', w3)))"

definition pulse ::
  "'x OrionHeartbeat \<Rightarrow> 'x world \<Rightarrow> py_error + (HeartbeatPulse \<times> 'x OrionHeartbeat \<times> 'x world)" where
  "pulse hb w =
     (case py_add_one (pulse_count hb) of
        Inl e \<Rightarrow> Inl e
      | Inr c \<Rightarrow>
          (let hb1 = hb\<lparr>pulse_count := c\<rparr>;
               (executed, ts, w1) = run_tasks (tasks hb1) w;
               hb2 = hb1\<lparr>tasks := ts\<rparr>;
               (p, w2) = HeartbeatPulse_init ''heartbeat''
                           (PDict [(''pulse_number'', pulse_count hb2),
                                   (''tasks_executed'', PInt (int (length executed))),
                                   (''details'', PList executed)]) w1;
               w3 = log_pulse p w2;
               w4 = save_state hb2 w3
           in Inr (p, hb2, w4)))"

definition stop :: "'x OrionHeartbeat \<Rightarrow> 'x world \<Rightarrow> pyval \<times> 'x OrionHeartbeat \<times> 'x world" where
  "stop hb w =
     (let hb1 = hb\<lparr>running := False\<rparr>;
          w1 = save_state hb1 w
      in (PDict [(''status'', PStr ''stopped''), (''total_pulses'', pulse_count hb1)], hb1, w1))"

text \<open>\<^verbatim>\<open>str(n)\<close> for an integer, used by the f-string of \<^verbatim>\<open>uptime_str\<close>.\<close>

function str_nat :: "nat \<Rightarrow> string" where
  "str_nat n =
     (if n < 10 then [char_of (48 + n)]
      else str_nat (n div 10) @ [char_of (48 + n mod 10)])"
  by pat_completeness auto
termination
  by (relation "measure id") auto

definition str_int :: "int \<Rightarrow> string" where
  "str_int i = (if i < 0 then CHR ''-'' # str_nat (nat (- i)) else str_nat (nat i))"

text \<open>
  Floor division and remainder of floats, as the interpreter computes them: \<^verbatim>\<open>fmod\<close> is
  exact, every other operation rounds. \<open>int_of_float\<close> is \<^verbatim>\<open>int(x)\<close>, which truncates.
\<close>

definition int_of_float :: "rat \<Rightarrow> int" where
  "int_of_float x = (if 0 \<le> x then \<lfloor>x\<rfloor> else \<lceil>x\<rceil>)"

definition fmod :: "rat \<Rightarrow> rat \<Rightarrow> rat" where
  "fmod x y = x - y * of_int (int_of_float (x / y))"

definition float_div_mod :: "rat \<Rightarrow> rat \<Rightarrow> py_error + (rat \<times> rat)" where
  "float_div_mod vx wx =
     (if wx = 0 then Inl ZeroDivisionError
      else
        (let mod0 = fmod vx wx;
             div0 = round_double (round_double (vx - mod0) / wx);
             (mod1, div1) =
               (if mod0 \<noteq> 0 \<and> ((wx < 0) \<noteq> (mod0 < 0))
                then (round_double (mod0 + wx), round_double (div0 - 1))
                else (mod0, div0));
             floordiv =
               (if div1 \<noteq> 0 then
                  (let f = of_int \<lfloor>div1\<rfloor>
                   in if 1 / 2 < round_double (div1 - f) then round_double (f + 1) else f)
                else 0)
         in Inr (floordiv, mod1)))"

definition float_floordiv :: "rat \<Rightarrow> rat \<Rightarrow> py_error + rat" where
  "float_floordiv vx wx = map_sum id fst (float_div_mod vx wx)"

definition float_rem :: "rat \<Rightarrow> rat \<Rightarrow> py_error + rat" where
  "float_rem vx wx =
     (if wx = 0 then Inl ZeroDivisionError
      else
        (let mod0 = fmod vx wx
         in Inr (if mod0 \<noteq> 0 \<and> ((wx < 0) \<noteq> (mod0 < 0))
                 then round_double (mod0 + wx) else mod0)))"

text \<open>
  \<^verbatim>\<open>int(delta.total_seconds() // 3600)\<close> and \<^verbatim>\<open>int((delta.total_seconds() % 3600) // 60)\<close>.
  The divisors are the literals 3600 and 60, so the error branches are never taken.
\<close>

definition uptime_str ::
  "'x OrionHeartbeat \<Rightarrow> 'x world \<Rightarrow> py_error + (string \<times> 'x world)" where
  "uptime_str hb w =
     (case start_time hb of
        None \<Rightarrow> Inr (''not_started'', w)
      | Some s \<Rightarrow>
          (let (n, w1) = now w;
               delta = n - s
           in case float_floordiv (total_seconds delta) 3600 of
                Inl e \<Rightarrow> Inl e
              | Inr h \<Rightarrow>
                  (case float_rem (total_seconds delta) 3600 of
                     Inl e \<Rightarrow> Inl e
                   | Inr r \<Rightarrow>
                       (case float_floordiv r 60 of
                          Inl e \<Rightarrow> Inl e
                        | Inr m \<Rightarrow>
                            Inr (str_int (int_of_float h) @ ''h ''
                                   @ str_int (int_of_float m) @ ''m'', w1)))))"

definition status :: "'x OrionHeartbeat \<Rightarrow> 'x world \<Rightarrow> py_error + (pyval \<times> 'x world)" where
  "status hb w =
     (case uptime_str hb w of
        Inl e \<Rightarrow> Inl e
      | Inr (up, w1) \<Rightarrow>
          Inr (PDict [(''version'', PStr ''1.0.0''),
                      (''running'', PBool (running hb)),
                      (''pulse_count'', pulse_count hb),
                      (''uptime'', PStr up),
                      (''tasks'', PList (map (\<lambda>t. PDict [(''name'', PStr (name t)),
                                                         (''interval'', PInt (interval t)),
                                                         (''run_count'', PInt (run_count t)),
                                                         (''errors'', PInt (errors t)),
                                                         (''priority'', PInt (priority t))])
                                           (tasks hb))),
                      (''start_time'',
                         (case start_time hb of None \<Rightarrow> PNone | Some s \<Rightarrow> PIso s))],
               w1))"

definition single_pulse ::
  "'x OrionHeartbeat \<Rightarrow> 'x world \<Rightarrow> py_error + (pyval \<times> 'x OrionHeartbeat \<times> 'x world)" where
  "single_pulse hb w =
     (case pulse hb w of
        Inl e \<Rightarrow> Inl e
      | Inr (p, hb1, w1) \<Rightarrow> Inr (to_dict p, hb1, w1))"

subsection \<open>Successive ticks and observations\<close>

text \<open>
  \<open>k\<close> successive calls of \<^verbatim>\<open>pulse()\<close> on the same scheduler, as the background loop or
  repeated \<^verbatim>\<open>single_pulse()\<close> calls make them; the time that passes between two calls
  shows in the clock readings. An exception ends the sequence.
\<close>

fun ticks ::
  "nat \<Rightarrow> 'x OrionHeartbeat \<Rightarrow> 'x world \<Rightarrow>
   py_error + (HeartbeatPulse list \<times> 'x OrionHeartbeat \<times> 'x world)" where
  "ticks 0 hb w = Inr ([], hb, w)"
| "ticks (Suc k) hb w =
     (case pulse hb w of
        Inl e \<Rightarrow> Inl e
      | Inr (p, hb1, w1) \<Rightarrow>
          (case ticks k hb1 w1 of
             Inl e \<Rightarrow> Inl e
           | Inr (ps, hb2, w2) \<Rightarrow> Inr (p # ps, hb2, w2)))"

text \<open>Readers of a pulse's \<^verbatim>\<open>result\<close> dictionary.\<close>

definition pulse_number :: "HeartbeatPulse \<Rightarrow> pyval option" where
  "pulse_number p = py_get (result p) ''pulse_number''"

definition details :: "HeartbeatPulse \<Rightarrow> pyval list" where
  "details p = (case py_get (result p) ''details'' of Some (PList ds) \<Rightarrow> ds | _ \<Rightarrow> [])"

definition entry :: "string \<Rightarrow> pyval \<Rightarrow> pyval" where
  "entry nm r = PDict [(''task'', PStr nm), (''result'', r)]"

definition failure :: "string \<Rightarrow> pyval" where
  "failure e = PDict [(''success'', PBool False), (''error'', PStr e)]"

text \<open>
  The due test in the words of the specification: true if \<^verbatim>\<open>last_run\<close> is absent, or
  \<open>now - last_run \<ge> interval\<close>, the interval being in seconds and the instants in
  microseconds.
\<close>

definition spec_should_run :: "'x AutonomousTask \<Rightarrow> time \<Rightarrow> bool" where
  "spec_should_run t n =
     (case last_run t of None \<Rightarrow> True | Some lr \<Rightarrow> interval t * 1000000 \<le> n - lr)"

text \<open>The action of a task raises in the external state \<open>x\<close>.\<close>

definition fails_at :: "'x AutonomousTask \<Rightarrow> 'x \<Rightarrow> bool" where
  "fails_at t x = (case fst (action t x) of Raised e \<Rightarrow> True | Returned r \<Rightarrow> False)"

text \<open>The pulse that \<^verbatim>\<open>pulse()\<close> builds from the counter, the executed entries and the clock.\<close>

definition pulse_of :: "pyval \<Rightarrow> pyval list \<Rightarrow> time \<Rightarrow> HeartbeatPulse" where
  "pulse_of c ex n =
     \<lparr>timestamp = n, pulse_action = ''heartbeat'',
      result = PDict [(''pulse_number'', c), (''tasks_executed'', PInt (int (length ex))),
                      (''details'', PList ex)],
      pulse_id = PSha12 n ''heartbeat''\<rparr>"

subsection \<open>The registry as a list of references\<close>

text \<open>
  \<^verbatim>\<open>self.tasks\<close> holds references, and \<^verbatim>\<open>register_task\<close> accepts an object that is
  already registered; the loop of \<^verbatim>\<open>pulse\<close> then meets the same object twice and the
  second visit sees what the first did to it. The embedding above, a list of records,
  is the case where all registered objects are distinct. Here the objects live in a
  store and the scheduler holds their addresses; \<open>deref\<close> reads the scheduler off the
  store as a list of records.
\<close>

type_synonym ref = nat

type_synonym 'x store = "ref \<Rightarrow> 'x AutonomousTask"

record RefHeartbeat =
  task_refs :: "ref list"
  refs_running :: bool
  refs_pulse_count :: pyval
  refs_start_time :: "time option"

definition deref :: "'x store \<Rightarrow> RefHeartbeat \<Rightarrow> 'x OrionHeartbeat" where
  "deref st h =
     \<lparr>tasks = map st (task_refs h), running = refs_running h,
      pulse_count = refs_pulse_count h, start_time = refs_start_time h\<rparr>"

definition register_task_ref :: "'x store \<Rightarrow> RefHeartbeat \<Rightarrow> ref \<Rightarrow> RefHeartbeat" where
  "register_task_ref st h r =
     h\<lparr>task_refs := sort_key (\<lambda>r. - priority (st r)) (task_refs h @ [r])\<rparr>"

fun run_task_refs ::
  "ref list \<Rightarrow> 'x store \<Rightarrow> 'x world \<Rightarrow> pyval list \<times> 'x store \<times> 'x world" where
  "run_task_refs [] st w = ([], st, w)"
| "run_task_refs (r # rs) st w =
     (let (due, w1) = should_run (st r) w
      in if due then
           (let (res, t', w2) = execute (st r) w1;
                (ex, st', w3) = run_task_refs rs (st(r := t')) w2
            in (PDict [(''task'', PStr (name (st r))), (''result'', res)] # ex, st', w3))
         else run_task_refs rs st w1)"

definition pulse_ref ::
  "RefHeartbeat \<Rightarrow> 'x store \<Rightarrow> 'x world \<Rightarrow>
   py_error + (HeartbeatPulse \<times> RefHeartbeat \<times> 'x store \<times> 'x world)" where
  "pulse_ref h st w =
     (case py_add_one (refs_pulse_count h) of
        Inl e \<Rightarrow> Inl e
      | Inr c \<Rightarrow>
          (let h1 = h\<lparr>refs_pulse_count := c\<rparr>;
               (executed, st1, w1) = run_task_refs (task_refs h1) st w;
               (p, w2) = HeartbeatPulse_init ''heartbeat''
                           (PDict [(''pulse_number'', refs_pulse_count h1),
                                   (''tasks_executed'', PInt (int (length executed))),
                                   (''details'', PList executed)]) w1;
               w3 = log_pulse p w2;
               w4 = save_state (deref st1 h1) w3
           in Inr (p, h1, st1, w4)))"

text \<open>
  The tick in the words of the specification: for each task in the order of the
  registry, call \<^verbatim>\<open>should_run\<close>; if it is due, call \<^verbatim>\<open>execute\<close> and record the outcome.
  \<open>after_turns rs st w i\<close> is the store and the world when the first \<open>i\<close> entries of the
  registry have had their turn, \<open>turn_due\<close> says whether entry \<open>i\<close> is due in its turn, and
  \<open>turn_entry\<close> is what its execution records. The turns are numbered from 0 and \<open>i\<close>
  stays below the length of the registry.
\<close>

fun after_turns :: "ref list \<Rightarrow> 'x store \<Rightarrow> 'x world \<Rightarrow> nat \<Rightarrow> 'x store \<times> 'x world" where
  "after_turns rs st w 0 = (st, w)"
| "after_turns rs st w (Suc i) =
     (let (sti, wi) = after_turns rs st w i;
          t = sti (rs ! i);
          (due, w1) = should_run t wi
      in if due then (let (res, t', w2) = execute t w1 in (sti(rs ! i := t'), w2))
         else (sti, w1))"

definition turn_due :: "ref list \<Rightarrow> 'x store \<Rightarrow> 'x world \<Rightarrow> nat \<Rightarrow> bool" where
  "turn_due rs st w i =
     (let (sti, wi) = after_turns rs st w i in fst (should_run (sti (rs ! i)) wi))"

definition turn_entry :: "ref list \<Rightarrow> 'x store \<Rightarrow> 'x world \<Rightarrow> nat \<Rightarrow> pyval" where
  "turn_entry rs st w i =
     (let (sti, wi) = after_turns rs st w i;
          t = sti (rs ! i)
      in entry (name t) (fst (execute t (snd (should_run t wi)))))"

subsection \<open>Concrete tasks, schedulers and worlds\<close>

definition failing_task :: "unit AutonomousTask" where
  "failing_task = AutonomousTask_init ''broken'' 3600 (\<lambda>x. (Raised ''boom'', x)) 5"

definition steady_task :: "unit AutonomousTask" where
  "steady_task = AutonomousTask_init ''steady'' 600 (\<lambda>x. (Returned PNone, x)) 1"

definition task10 :: "unit AutonomousTask" where
  "task10 = AutonomousTask_init ''every10'' 10 (\<lambda>x. (Returned PNone, x)) 5"

definition task20 :: "unit AutonomousTask" where
  "task20 = AutonomousTask_init ''every20'' 20 (\<lambda>x. (Returned PNone, x)) 9"

definition task30 :: "unit AutonomousTask" where
  "task30 = AutonomousTask_init ''every30'' 30 (\<lambda>x. (Returned PNone, x)) 1"

text \<open>A clock that stands still at the epoch, and one that advances a second per reading.\<close>

definition still_world :: "unit world" where
  "still_world = \<lparr>reads = 0, wall = (\<lambda>k. 0), heartbeat_log = [], heartbeat_state = None, ext = ()\<rparr>"

definition seconds_world :: "unit world" where
  "seconds_world = \<lparr>reads = 0, wall = (\<lambda>k. int k * 1000000), heartbeat_log = [],
                    heartbeat_state = None, ext = ()\<rparr>"

definition garbled_world :: "unit world" where
  "garbled_world = still_world\<lparr>heartbeat_state := Some Malformed\<rparr>"

definition partial_world :: "unit world" where
  "partial_world = still_world\<lparr>heartbeat_state := Some (Json (PDict [(''running'', PBool False)]))\<rparr>"

definition empty_hb :: "unit OrionHeartbeat" where
  "empty_hb = \<lparr>tasks = [], running = False, pulse_count = PInt 0, start_time = None\<rparr>"

definition broken_hb :: "unit OrionHeartbeat" where
  "broken_hb = register_task empty_hb failing_task"

definition paired_hb :: "unit OrionHeartbeat" where
  "paired_hb = register_task (register_task empty_hb steady_task) failing_task"

definition rested_hb :: "unit OrionHeartbeat" where
  "rested_hb = empty_hb\<lparr>tasks := [failing_task\<lparr>last_run := Some 0\<rparr>,
                                  steady_task\<lparr>last_run := Some 0\<rparr>]\<rparr>"

text \<open>A store where address 0 holds the task of priority 5 and address 1 that of priority 9.\<close>

definition shared_store :: "unit store" where
  "shared_store = (\<lambda>r. if r = 0 then task10 else if r = 1 then task20 else task30)"

definition shared_hb :: RefHeartbeat where
  "shared_hb = \<lparr>task_refs = [], refs_running = False, refs_pulse_count = PInt 0,
                refs_start_time = None\<rparr>"

text \<open>
  A task that last ran at the epoch, with an interval of \<open>2\<^sup>3\<^sup>4 + 1\<close> seconds, and a clock
  that reads one microsecond less than that interval.
\<close>

definition slow_task :: "unit AutonomousTask" where
  "slow_task = (AutonomousTask_init ''slow'' 17179869185 (\<lambda>x. (Returned PNone, x)) 5)
                 \<lparr>last_run := Some 0\<rparr>"

definition late_world :: "unit world" where
  "late_world = \<lparr>reads = 0, wall = (\<lambda>k. 17179869184999999), heartbeat_log = [],
                 heartbeat_state = None, ext = ()\<rparr>"

definition quiet_actions :: "unit core_actions" where
  "quiet_actions =
     \<lparr>task_self_reflection = (\<lambda>x. (Returned PNone, x)),
      task_check_questions = (\<lambda>x. (Returned PNone, x)),
      task_answer_pending_questions = (\<lambda>x. (Returned PNone, x)),
      task_check_goals = (\<lambda>x. (Returned PNone, x)),
      task_knowledge_synthesis = (\<lambda>x. (Returned PNone, x)),
      task_consciousness_pulse = (\<lambda>x. (Returned PNone, x))\<rparr>"

section \<open>Basic facts\<close>

lemma now_simps:
  "fst (now w) = wall w (reads w)" "snd (now w) = w\<lparr>reads := Suc (reads w)\<rparr>"
  by (simp_all add: now_def)

lemma round_half_even_ge_floor: "\<lfloor>q\<rfloor> \<le> round_half_even q"
  by (simp add: round_half_even_def Let_def)

lemma round_half_even_le: "of_int (round_half_even q) \<le> q + 1 / 2"
proof -
  have a: "of_int \<lfloor>q\<rfloor> \<le> q" by simp
  have b: "of_int (\<lfloor>q\<rfloor> + 1) \<le> q + 1 / 2" if "1 / 2 \<le> q - of_int \<lfloor>q\<rfloor>"
    using that by simp
  have c: "round_half_even q = \<lfloor>q\<rfloor>
           \<or> (round_half_even q = \<lfloor>q\<rfloor> + 1 \<and> 1 / 2 \<le> q - of_int \<lfloor>q\<rfloor>)"
    by (simp add: round_half_even_def Let_def not_less)
  from c show ?thesis
  proof
    assume e: "round_half_even q = \<lfloor>q\<rfloor>"
    have "q \<le> q + 1 / 2" by simp
    with a have "of_int \<lfloor>q\<rfloor> \<le> q + 1 / 2" by (rule order_trans)
    then show ?thesis by (simp only: e)
  next
    assume "round_half_even q = \<lfloor>q\<rfloor> + 1 \<and> 1 / 2 \<le> q - of_int \<lfloor>q\<rfloor>"
    with b show ?thesis by simp
  qed
qed

lemma round_half_even_eqI:
  assumes "of_int m - 1 / 2 < q" and "q < of_int m + 1 / 2"
  shows "round_half_even q = m"
proof (cases "of_int m \<le> q")
  case True
  then have f: "\<lfloor>q\<rfloor> = m" using assms(2) by (simp add: floor_eq_iff)
  show ?thesis using assms(2) by (simp add: round_half_even_def Let_def f)
next
  case False
  then have f: "\<lfloor>q\<rfloor> = m - 1" using assms(1) by (simp add: floor_eq_iff)
  show ?thesis using assms(1) by (simp add: round_half_even_def Let_def f)
qed

lemma ulp_exponent_le:
  assumes "\<bar>x :: rat\<bar> < 2 ^ 34"
  shows "max (bitlen \<lfloor>\<bar>x\<bar> * 2 ^ 1074\<rfloor> - 1127) (- 1074) \<le> - 19"
proof -
  have "\<bar>x\<bar> * 2 ^ 1074 < 2 ^ 34 * 2 ^ 1074" using assms by simp
  also have "\<dots> = (2::rat) ^ 1108" by (simp add: power_add [symmetric])
  finally have "\<bar>x\<bar> * 2 ^ 1074 < of_int (2 ^ 1108)" by simp
  then have "\<lfloor>\<bar>x\<bar> * 2 ^ 1074\<rfloor> < 2 ^ 1108" by (simp only: floor_less_iff)
  then have "bitlen \<lfloor>\<bar>x\<bar> * 2 ^ 1074\<rfloor> \<le> 1108"
    by (simp add: bitlen_le_iff_power)
  then show ?thesis by simp
qed

lemma round_double_binade:
  assumes "2 ^ n \<le> \<bar>x :: rat\<bar>" and "\<bar>x\<bar> < 2 ^ Suc n"
  shows "round_double x = of_int (round_half_even (x / pow2 (int n - 52))) * pow2 (int n - 52)"
proof -
  let ?N = "\<lfloor>\<bar>x\<bar> * 2 ^ 1074\<rfloor>"
  have "(2::rat) ^ n * 2 ^ 1074 \<le> \<bar>x\<bar> * 2 ^ 1074" using assms(1) by (intro mult_right_mono) auto
  then have "of_int (2 ^ (n + 1074)) \<le> \<bar>x\<bar> * 2 ^ 1074"
    by (simp only: power_add of_int_power of_int_numeral of_int_mult)
  then have lo: "2 ^ (n + 1074) \<le> ?N" by (simp only: le_floor_iff)
  have "\<bar>x\<bar> * 2 ^ 1074 < (2::rat) ^ Suc n * 2 ^ 1074"
    using assms(2) by (intro mult_strict_right_mono) auto
  then have "\<bar>x\<bar> * 2 ^ 1074 < of_int (2 ^ (Suc n + 1074))"
    by (simp only: power_add of_int_power of_int_numeral of_int_mult)
  then have hi: "?N < 2 ^ (Suc n + 1074)" by (simp only: floor_less_iff)
  have hi': "?N < 2 ^ nat (int (Suc n + 1074))" by (simp only: nat_int hi)
  have lo': "2 ^ (nat (int (Suc n + 1074)) - 1) \<le> ?N"
    by (simp only: nat_int add_Suc diff_Suc_1 lo)
  have "bitlen ?N \<le> int (Suc n + 1074)"
    unfolding bitlen_le_iff_power using hi' by simp
  moreover have "int (Suc n + 1074) \<le> bitlen ?N"
    unfolding bitlen_ge_iff_power using lo' by (rule disjI2)
  ultimately have b: "bitlen ?N = int (Suc n + 1074)" by (rule antisym)
  have u: "max (bitlen ?N - 1127) (- 1074) = int n - 52" unfolding b by simp
  show ?thesis unfolding round_double_def Let_def u ..
qed

text \<open>
  Below \<open>2\<^sup>3\<^sup>4\<close> seconds the doubles are less than a microsecond apart, and the comparison
  of the rounded quotient with a whole number of seconds is the comparison of the
  microseconds.
\<close>

lemma total_seconds_ge:
  assumes "\<bar>d\<bar> < 2 ^ 34 * 1000000"
  shows "(of_int i \<le> total_seconds d) = (i * 1000000 \<le> d)"
proof -
  define x :: rat where "x = of_int d / 1000000"
  define u where "u = max (bitlen \<lfloor>\<bar>x\<bar> * 2 ^ 1074\<rfloor> - 1127) (- 1074)"
  define s :: int where "s = 2 ^ nat (- u)"
  have "\<bar>of_int d :: rat\<bar> < 2 ^ 34 * 1000000"
  proof -
    have "(of_int \<bar>d\<bar> :: rat) < of_int (2 ^ 34 * 1000000)"
      using assms by (simp only: of_int_less_iff)
    then show ?thesis by simp
  qed
  then have ax: "\<bar>x\<bar> < 2 ^ 34" by (simp add: x_def)
  have u: "u \<le> - 19" unfolding u_def by (rule ulp_exponent_le [OF ax])
  then have p: "pow2 u = 1 / of_int s" by (simp add: pow2_def s_def)
  have "(2::int) ^ 19 \<le> 2 ^ nat (- u)" using u by (intro power_increasing) auto
  then have s19: "524288 \<le> s" by (simp add: s_def)
  then have s0: "0 < s" by simp
  have fl: "total_seconds d = of_int (round_half_even (x * of_int s)) / of_int s"
    unfolding total_seconds_def round_double_def Let_def x_def [symmetric] u_def [symmetric] p
    by simp
  have xi: "(of_int i \<le> x) = (i * 1000000 \<le> d)"
  proof -
    have "(of_int i \<le> (of_int d / 1000000 :: rat)) = ((of_int i :: rat) * 1000000 \<le> of_int d)"
      by (simp add: pos_le_divide_eq)
    also have "\<dots> = ((of_int (i * 1000000) :: rat) \<le> of_int d)" by simp
    also have "\<dots> = (i * 1000000 \<le> d)" by (simp only: of_int_le_iff)
    finally show ?thesis by (simp add: x_def)
  qed
  show ?thesis
  proof
    assume "of_int i \<le> total_seconds d"
    then have "of_int i * of_int s \<le> (of_int (round_half_even (x * of_int s)) :: rat)"
      using s0 by (simp add: fl pos_le_divide_eq)
    also have "\<dots> \<le> x * of_int s + 1 / 2" by (rule round_half_even_le)
    finally have a: "(of_int i - x) * of_int s \<le> 1 / 2" by (simp add: algebra_simps)
    show "i * 1000000 \<le> d"
    proof (rule ccontr)
      assume "\<not> i * 1000000 \<le> d"
      then have "d + 1 \<le> i * 1000000" by simp
      then have "(of_int (d + 1) :: rat) \<le> of_int (i * 1000000)" by (simp only: of_int_le_iff)
      then have "(of_int d + 1) / 1000000 \<le> (of_int i :: rat)" by (simp add: pos_divide_le_eq)
      then have "1 / 1000000 \<le> of_int i - x" by (simp add: x_def add_divide_distrib)
      moreover have "(524288::rat) \<le> of_int s"
      proof -
        have "(of_int 524288 :: rat) \<le> of_int s" using s19 by (simp only: of_int_le_iff)
        then show ?thesis by simp
      qed
      ultimately have "1 / 1000000 * 524288 \<le> (of_int i - x) * of_int s"
        by (intro mult_mono) auto
      with a show False by simp
    qed
  next
    assume "i * 1000000 \<le> d"
    then have "of_int i \<le> x" by (simp only: xi)
    then have "of_int i * of_int s \<le> x * of_int s" using s0 by (simp add: mult_right_mono)
    then have "of_int (i * s) \<le> x * of_int s" by simp
    then have "i * s \<le> \<lfloor>x * of_int s\<rfloor>" by (simp only: le_floor_iff)
    also have "\<dots> \<le> round_half_even (x * of_int s)" by (rule round_half_even_ge_floor)
    finally have "(of_int (i * s) :: rat) \<le> of_int (round_half_even (x * of_int s))"
      by (simp only: of_int_le_iff)
    then show "of_int i \<le> total_seconds d" using s0 by (simp add: fl pos_le_divide_eq)
  qed
qed

lemma should_run_fst:
  "fst (should_run t w) =
     (case last_run t of
        None \<Rightarrow> True
      | Some lr \<Rightarrow> of_int (interval t) \<le> total_seconds (wall w (reads w) - lr))"
  by (simp add: should_run_def now_def split: option.splits)

lemma should_run_snd:
  "snd (should_run t w) =
     (case last_run t of None \<Rightarrow> w | Some lr \<Rightarrow> w\<lparr>reads := Suc (reads w)\<rparr>)"
  by (simp add: should_run_def now_def split: option.splits)

lemma should_run_spec:
  assumes "case last_run t of None \<Rightarrow> True
           | Some lr \<Rightarrow> \<bar>wall w (reads w) - lr\<bar> < 2 ^ 34 * 1000000"
  shows "fst (should_run t w) = spec_should_run t (wall w (reads w))"
proof (cases "last_run t")
  case None
  then show ?thesis by (simp add: should_run_fst spec_should_run_def)
next
  case (Some lr)
  with assms have "\<bar>wall w (reads w) - lr\<bar> < 2 ^ 34 * 1000000" by simp
  from total_seconds_ge [OF this] show ?thesis
    by (simp only: should_run_fst spec_should_run_def Some option.case)
qed

lemma execute_Raised:
  "action t (ext w) = (Raised e, x) \<Longrightarrow>
   execute t w = (failure e, t\<lparr>errors := errors t + 1\<rparr>, w\<lparr>ext := x\<rparr>)"
  by (simp add: execute_def failure_def)

lemma execute_Returned:
  "action t (ext w) = (Returned r, x) \<Longrightarrow>
   execute t w = (PDict [(''success'', PBool True), (''result'', r)],
                  t\<lparr>last_run := Some (wall w (reads w)), run_count := run_count t + 1\<rparr>,
                  w\<lparr>ext := x, reads := Suc (reads w)\<rparr>)"
  by (simp add: execute_def now_def)

lemma execute_cases:
  obtains (ok) r x where "action t (ext w) = (Returned r, x)"
        | (err) e x where "action t (ext w) = (Raised e, x)"
  by (cases "action t (ext w)"; cases "fst (action t (ext w))") auto

lemma should_run_world:
  "heartbeat_log (snd (should_run t w)) = heartbeat_log w"
  "heartbeat_state (snd (should_run t w)) = heartbeat_state w"
  "wall (snd (should_run t w)) = wall w"
  "ext (snd (should_run t w)) = ext w"
  by (simp_all add: should_run_snd split: option.splits)

lemma execute_world:
  "heartbeat_log (snd (snd (execute t w))) = heartbeat_log w"
  "heartbeat_state (snd (snd (execute t w))) = heartbeat_state w"
  "wall (snd (snd (execute t w))) = wall w"
  by (cases rule: execute_cases [of t w]; simp add: execute_Raised execute_Returned)+

lemma execute_frame:
  "name (fst (snd (execute t w))) = name t"
  "interval (fst (snd (execute t w))) = interval t"
  "priority (fst (snd (execute t w))) = priority t"
  "action (fst (snd (execute t w))) = action t"
  by (cases rule: execute_cases [of t w]; simp add: execute_Raised execute_Returned)+

lemma run_tasks_Cons:
  "run_tasks (t # ts) w =
     (if fst (should_run t w) then
        (entry (name t) (fst (execute t (snd (should_run t w))))
           # fst (run_tasks ts (snd (snd (execute t (snd (should_run t w)))))),
         fst (snd (execute t (snd (should_run t w))))
           # fst (snd (run_tasks ts (snd (snd (execute t (snd (should_run t w))))))),
         snd (snd (run_tasks ts (snd (snd (execute t (snd (should_run t w))))))))
      else
        (fst (run_tasks ts (snd (should_run t w))),
         t # fst (snd (run_tasks ts (snd (should_run t w)))),
         snd (snd (run_tasks ts (snd (should_run t w))))))"
  by (simp add: entry_def split: prod.splits)

lemma run_tasks_length: "length (fst (snd (run_tasks ts w))) = length ts"
  by (induction ts arbitrary: w) (simp_all add: run_tasks_Cons del: run_tasks.simps(2))

lemma run_tasks_world:
  "heartbeat_log (snd (snd (run_tasks ts w))) = heartbeat_log w
   \<and> heartbeat_state (snd (snd (run_tasks ts w))) = heartbeat_state w
   \<and> wall (snd (snd (run_tasks ts w))) = wall w"
  by (induction ts arbitrary: w)
     (simp_all add: run_tasks_Cons should_run_world execute_world del: run_tasks.simps(2))

lemma run_tasks_frame:
  "map name (fst (snd (run_tasks ts w))) = map name ts
   \<and> map interval (fst (snd (run_tasks ts w))) = map interval ts
   \<and> map priority (fst (snd (run_tasks ts w))) = map priority ts
   \<and> map action (fst (snd (run_tasks ts w))) = map action ts"
  by (induction ts arbitrary: w)
     (simp_all add: run_tasks_Cons execute_frame del: run_tasks.simps(2))

lemma run_tasks_append:
  "run_tasks (xs @ ys) w =
     (fst (run_tasks xs w) @ fst (run_tasks ys (snd (snd (run_tasks xs w)))),
      fst (snd (run_tasks xs w)) @ fst (snd (run_tasks ys (snd (snd (run_tasks xs w))))),
      snd (snd (run_tasks ys (snd (snd (run_tasks xs w))))))"
  by (induction xs arbitrary: w) (simp_all add: run_tasks_Cons del: run_tasks.simps(2))


lemma pulse_Inr:
  assumes "py_add_one (pulse_count hb) = Inr c"
  shows "pulse hb w =
     (let ex = fst (run_tasks (tasks hb) w);
          ts = fst (snd (run_tasks (tasks hb) w));
          w1 = snd (snd (run_tasks (tasks hb) w));
          hb2 = hb\<lparr>pulse_count := c, tasks := ts\<rparr>;
          p = pulse_of c ex (wall w1 (reads w1))
      in Inr (p, hb2, save_state hb2 (log_pulse p (w1\<lparr>reads := Suc (reads w1)\<rparr>))))"
  using assms
  by (simp add: pulse_def HeartbeatPulse_init_def now_def pulse_of_def Let_def split: prod.splits)

lemma pulse_of_simps:
  "pulse_number (pulse_of c ex n) = Some c"
  "details (pulse_of c ex n) = ex"
  "py_get (result (pulse_of c ex n)) ''tasks_executed'' = Some (PInt (int (length ex)))"
  "timestamp (pulse_of c ex n) = n"
  by (simp_all add: pulse_of_def pulse_number_def details_def)

lemma save_state_simps:
  "heartbeat_state (save_state hb w) =
     Some (Json (PDict [(''total_pulses'', pulse_count hb),
                        (''running'', PBool (running hb)),
                        (''start_time'', (case start_time hb of None \<Rightarrow> PNone | Some s \<Rightarrow> PIso s)),
                        (''tasks'', PInt (int (length (tasks hb)))),
                        (''last_save'', PIso (wall w (reads w)))]))"
  "heartbeat_log (save_state hb w) = heartbeat_log w"
  "wall (save_state hb w) = wall w"
  "ext (save_state hb w) = ext w"
  "reads (save_state hb w) = Suc (reads w)"
  by (simp_all add: save_state_def now_def Let_def)

lemma load_state_saved:
  "pulse_count (load_state hb0 (save_state hb w)) = pulse_count hb"
  by (simp add: load_state_def save_state_simps load_state_try_def)

lemma register_task_fields:
  "pulse_count (register_task hb t) = pulse_count hb"
  "running (register_task hb t) = running hb"
  "start_time (register_task hb t) = start_time hb"
  by (simp_all add: register_task_def)

lemma register_core_tasks_fields:
  "pulse_count (register_core_tasks acts hb) = pulse_count hb"
  "running (register_core_tasks acts hb) = running hb"
  by (simp_all add: register_core_tasks_def Let_def register_task_fields)

lemma init_pulse_count:
  "pulse_count (OrionHeartbeat_init acts w) =
     (case heartbeat_state w of
        None \<Rightarrow> PInt 0
      | Some c \<Rightarrow> (case load_state_try c of Inl e \<Rightarrow> PInt 0 | Inr v \<Rightarrow> v))"
  by (simp add: OrionHeartbeat_init_def register_core_tasks_fields load_state_def
           split: option.splits sum.splits)

lemma init_after_save:
  "pulse_count (OrionHeartbeat_init acts (save_state hb w)) = pulse_count hb"
  by (simp add: init_pulse_count save_state_simps load_state_try_def)

lemma stop_simps:
  "fst (snd (stop hb w)) = hb\<lparr>running := False\<rparr>"
  "snd (snd (stop hb w)) = save_state (hb\<lparr>running := False\<rparr>) w"
  "fst (stop hb w) = PDict [(''status'', PStr ''stopped''), (''total_pulses'', pulse_count hb)]"
  by (simp_all add: stop_def Let_def)

lemma upt_0_Suc_map: "map f [0..<Suc k] = f 0 # map (\<lambda>i. f (Suc i)) [0..<k]"
proof -
  have "[0..<Suc k] = 0 # map Suc [0..<k]"
    by (simp only: map_Suc_upt upt_conv_Cons [of 0 "Suc k"] zero_less_Suc)
  then show ?thesis by (simp add: comp_def del: upt_Suc)
qed

lemma ticks_numbers:
  "pulse_count hb = PInt n \<Longrightarrow>
   \<exists>ps hb1 w1. ticks k hb w = Inr (ps, hb1, w1)
     \<and> map pulse_number ps = map (\<lambda>i. Some (PInt (n + 1 + int i))) [0..<k]
     \<and> pulse_count hb1 = PInt (n + int k)"
proof (induction k arbitrary: hb w n)
  case 0
  then show ?case by simp
next
  case (Suc k)
  have a: "py_add_one (pulse_count hb) = Inr (PInt (n + 1))" using Suc.prems by simp
  obtain p hb' w' where p: "pulse hb w = Inr (p, hb', w')"
    and pn: "pulse_number p = Some (PInt (n + 1))" and pc: "pulse_count hb' = PInt (n + 1)"
    using pulse_Inr [OF a, of w] by (simp add: Let_def pulse_of_simps)
  from Suc.IH [OF pc, of w'] obtain ps hb1 w1 where
    t: "ticks k hb' w' = Inr (ps, hb1, w1)"
    and ns: "map pulse_number ps = map (\<lambda>i. Some (PInt (n + 1 + 1 + int i))) [0..<k]"
    and c1: "pulse_count hb1 = PInt (n + 1 + int k)" by blast
  have m: "map (\<lambda>i. Some (PInt (n + 1 + int i))) [0..<Suc k]
        = Some (PInt (n + 1)) # map (\<lambda>i. Some (PInt (n + 1 + 1 + int i))) [0..<k]"
    by (simp only: upt_0_Suc_map) (simp add: algebra_simps)
  have "ticks (Suc k) hb w = Inr (p # ps, hb1, w1)" using p t by simp
  moreover have "map pulse_number (p # ps) = map (\<lambda>i. Some (PInt (n + 1 + int i))) [0..<Suc k]"
    using pn ns m by simp
  moreover have "pulse_count hb1 = PInt (n + int (Suc k))" using c1 by (simp add: algebra_simps)
  ultimately show ?case by blast
qed


lemma sort_key_snoc_sorted:
  "sort_key f (sort_key f xs @ [t]) = sort_key f (xs @ [t])"
proof (rule properties_for_sort_key [symmetric])
  show "mset (sort_key f (sort_key f xs @ [t])) = mset (xs @ [t])" by simp
next
  show "\<And>k. k \<in> set (sort_key f (sort_key f xs @ [t])) \<Longrightarrow>
          filter (\<lambda>x. f k = f x) (sort_key f (sort_key f xs @ [t])) = filter (\<lambda>x. f k = f x) (xs @ [t])"
  proof -
    fix k
    have "filter (\<lambda>x. f k = f x) (sort_key f (sort_key f xs @ [t]))
          = filter (\<lambda>x. f k = f x) (sort_key f xs @ [t])"
      using sort_key_stable [of f "f k" "sort_key f xs @ [t]"] by (simp add: eq_commute)
    also have "\<dots> = filter (\<lambda>x. f k = f x) (xs @ [t])"
      using sort_key_stable [of f "f k" xs] by (simp add: eq_commute)
    finally show "filter (\<lambda>x. f k = f x) (sort_key f (sort_key f xs @ [t])) = filter (\<lambda>x. f k = f x) (xs @ [t])" .
  qed
next
  show "sorted (map f (sort_key f (sort_key f xs @ [t])))" by simp
qed

lemma run_tasks_none_due:
  "\<forall>i<length ts. \<not> fst (should_run (ts ! i) (w\<lparr>reads := reads w + i\<rparr>)) \<Longrightarrow>
   run_tasks ts w = ([], ts, w\<lparr>reads := reads w + length ts\<rparr>)"
proof (induction ts arbitrary: w)
  case Nil
  then show ?case by simp
next
  case (Cons t ts)
  from Cons.prems have "\<not> fst (should_run ((t # ts) ! 0) (w\<lparr>reads := reads w + 0\<rparr>))"
    by blast
  then have nd: "\<not> fst (should_run t w)" by simp
  then obtain lr where lr: "last_run t = Some lr"
    by (cases "last_run t") (simp_all add: should_run_def)
  let ?w1 = "w\<lparr>reads := Suc (reads w)\<rparr>"
  have sr: "should_run t w = (False, ?w1)"
    using nd lr by (simp add: prod_eq_iff should_run_snd)
  have "\<forall>i<length ts. \<not> fst (should_run (ts ! i) (?w1\<lparr>reads := reads ?w1 + i\<rparr>))"
  proof (intro allI impI)
    fix i assume "i < length ts"
    then have "\<not> fst (should_run ((t # ts) ! Suc i) (w\<lparr>reads := reads w + Suc i\<rparr>))"
      using Cons.prems by (metis Suc_less_eq length_Cons)
    then show "\<not> fst (should_run (ts ! i) (?w1\<lparr>reads := reads ?w1 + i\<rparr>))" by simp
  qed
  from Cons.IH [OF this] show ?case using sr by simp
qed

lemma run_tasks_failing:
  "i < length ts \<Longrightarrow> last_run (ts ! i) = None \<Longrightarrow> \<forall>x. fails_at (ts ! i) x \<Longrightarrow>
   last_run (fst (snd (run_tasks ts w)) ! i) = None
   \<and> errors (fst (snd (run_tasks ts w)) ! i) = errors (ts ! i) + 1
   \<and> run_count (fst (snd (run_tasks ts w)) ! i) = run_count (ts ! i)
   \<and> (\<exists>e. entry (name (ts ! i)) (failure e) \<in> set (fst (run_tasks ts w)))"
proof (induction ts arbitrary: i w)
  case Nil
  then show ?case by simp
next
  case (Cons t ts)
  show ?case
  proof (cases i)
    case 0
    with Cons.prems have n: "last_run t = None" and f: "\<forall>x. fails_at t x" by simp_all
    have sr: "should_run t w = (True, w)" using n by (simp add: should_run_def)
    from f have "fails_at t (ext w)" by blast
    then obtain e x where a: "action t (ext w) = (Raised e, x)"
      by (cases "action t (ext w)"; cases "fst (action t (ext w))") (auto simp: fails_at_def)
    show ?thesis using 0 n
      by (auto simp add: run_tasks_Cons sr execute_Raised [OF a] simp del: run_tasks.simps(2))
  next
    case (Suc j)
    with Cons.prems have j: "j < length ts" "last_run (ts ! j) = None" "\<forall>x. fails_at (ts ! j) x"
      by simp_all
    note ih = Cons.IH [OF j]
    show ?thesis
    proof (cases "fst (should_run t w)")
      case True
      then show ?thesis using Suc ih [of "snd (snd (execute t (snd (should_run t w))))"]
        by (auto simp add: run_tasks_Cons simp del: run_tasks.simps(2))
    next
      case False
      then show ?thesis using Suc ih [of "snd (should_run t w)"]
        by (auto simp add: run_tasks_Cons simp del: run_tasks.simps(2))
    qed
  qed
qed

lemma run_tasks_nth_frame:
  assumes "i < length ts"
  shows "name (fst (snd (run_tasks ts w)) ! i) = name (ts ! i)"
    and "action (fst (snd (run_tasks ts w)) ! i) = action (ts ! i)"
proof -
  have l: "i < length (fst (snd (run_tasks ts w)))" using assms by (simp add: run_tasks_length)
  have "map name (fst (snd (run_tasks ts w))) ! i = map name ts ! i"
    by (simp add: run_tasks_frame)
  then show "name (fst (snd (run_tasks ts w)) ! i) = name (ts ! i)" using l assms by simp
  have "map action (fst (snd (run_tasks ts w))) ! i = map action ts ! i"
    by (simp add: run_tasks_frame)
  then show "action (fst (snd (run_tasks ts w)) ! i) = action (ts ! i)" using l assms by simp
qed

subsection \<open>The registry of references\<close>

lemma run_task_refs_Cons:
  "run_task_refs (r # rs) st w =
     (if fst (should_run (st r) w) then
        (entry (name (st r)) (fst (execute (st r) (snd (should_run (st r) w))))
           # fst (run_task_refs rs (st(r := fst (snd (execute (st r) (snd (should_run (st r) w))))))
                    (snd (snd (execute (st r) (snd (should_run (st r) w)))))),
         snd (run_task_refs rs (st(r := fst (snd (execute (st r) (snd (should_run (st r) w))))))
                    (snd (snd (execute (st r) (snd (should_run (st r) w)))))))
      else run_task_refs rs st (snd (should_run (st r) w)))"
  by (simp add: entry_def split: prod.splits)

lemma run_task_refs_append:
  "run_task_refs (xs @ ys) st w =
     (fst (run_task_refs xs st w)
        @ fst (run_task_refs ys (fst (snd (run_task_refs xs st w))) (snd (snd (run_task_refs xs st w)))),
      snd (run_task_refs ys (fst (snd (run_task_refs xs st w))) (snd (snd (run_task_refs xs st w)))))"
  by (induction xs arbitrary: st w) (simp_all add: run_task_refs_Cons del: run_task_refs.simps(2))

lemma after_turns_prefix:
  "i \<le> length xs \<Longrightarrow> after_turns (xs @ ys) st w i = after_turns xs st w i"
  by (induction i) (simp_all add: nth_append Let_def split: prod.splits)

lemma after_turns_Suc:
  "after_turns rs st w (Suc i) =
     (if turn_due rs st w i then
        (let sti = fst (after_turns rs st w i); wi = snd (after_turns rs st w i); t = sti (rs ! i)
         in ((sti(rs ! i := fst (snd (execute t (snd (should_run t wi)))))),
             snd (snd (execute t (snd (should_run t wi))))))
      else (fst (after_turns rs st w i),
            snd (should_run (fst (after_turns rs st w i) (rs ! i)) (snd (after_turns rs st w i)))))"
  by (simp add: turn_due_def Let_def split: prod.splits)

lemma run_task_refs_turns:
  "run_task_refs rs st w =
     (map (turn_entry rs st w) (filter (turn_due rs st w) [0..<length rs]),
      after_turns rs st w (length rs))"
proof (induction rs rule: rev_induct)
  case Nil
  then show ?case by simp
next
  case (snoc r rs)
  let ?n = "length rs"
  have d: "turn_due (rs @ [r]) st w i = turn_due rs st w i" if "i < ?n" for i
    using that by (simp add: turn_due_def after_turns_prefix nth_append)
  have e: "turn_entry (rs @ [r]) st w i = turn_entry rs st w i" if "i < ?n" for i
    using that by (simp add: turn_entry_def after_turns_prefix nth_append)
  have f: "filter (turn_due (rs @ [r]) st w) [0..<?n] = filter (turn_due rs st w) [0..<?n]"
    by (rule filter_cong) (simp_all add: d)
  have m: "map (turn_entry (rs @ [r]) st w) (filter (turn_due rs st w) [0..<?n])
         = map (turn_entry rs st w) (filter (turn_due rs st w) [0..<?n])"
    by (rule map_cong) (simp_all add: e)
  have a: "after_turns (rs @ [r]) st w ?n = after_turns rs st w ?n"
    by (simp add: after_turns_prefix)
  have ih1: "fst (run_task_refs rs st w)
             = map (turn_entry rs st w) (filter (turn_due rs st w) [0..<?n])"
    and ih2: "snd (run_task_refs rs st w) = after_turns rs st w ?n"
    by (simp_all add: snoc.IH)
  have ih3: "fst (snd (run_task_refs rs st w)) = fst (after_turns rs st w ?n)"
    and ih4: "snd (snd (run_task_refs rs st w)) = snd (after_turns rs st w ?n)"
    by (simp_all add: ih2)
  have last_due: "turn_due (rs @ [r]) st w ?n
        = fst (should_run (fst (after_turns rs st w ?n) r) (snd (after_turns rs st w ?n)))"
    by (simp add: turn_due_def a split: prod.splits)
  have last_entry: "turn_entry (rs @ [r]) st w ?n
        = entry (name (fst (after_turns rs st w ?n) r))
            (fst (execute (fst (after_turns rs st w ?n) r)
                    (snd (should_run (fst (after_turns rs st w ?n) r) (snd (after_turns rs st w ?n))))))"
    by (simp add: turn_entry_def a Let_def split: prod.splits)
  show ?case
    by (simp add: run_task_refs_append run_task_refs_Cons ih1 ih3 ih4 f m after_turns_Suc
          last_due last_entry a Let_def
          del: run_task_refs.simps(2) after_turns.simps(2))
qed


lemma run_task_refs_outside:
  "r \<notin> set rs \<Longrightarrow> fst (snd (run_task_refs rs st w)) r = st r"
  by (induction rs arbitrary: st w)
     (auto simp add: run_task_refs_Cons simp del: run_task_refs.simps(2))

lemma run_task_refs_distinct:
  "distinct rs \<Longrightarrow>
   run_tasks (map st rs) w =
     (fst (run_task_refs rs st w), map (fst (snd (run_task_refs rs st w))) rs,
      snd (snd (run_task_refs rs st w)))"
proof (induction rs arbitrary: st w)
  case Nil
  then show ?case by simp
next
  case (Cons r rs)
  then have nr: "r \<notin> set rs" and dr: "distinct rs" by simp_all
  have m: "map (st(r := t)) rs = map st rs" for t
    by (rule map_cong) (use nr in auto)
  show ?case
  proof (cases "fst (should_run (st r) w)")
    case True
    let ?t = "fst (snd (execute (st r) (snd (should_run (st r) w))))"
    let ?w = "snd (snd (execute (st r) (snd (should_run (st r) w))))"
    have o: "fst (snd (run_task_refs rs (st(r := ?t)) ?w)) r = ?t"
      using run_task_refs_outside [OF nr, of "st(r := ?t)" ?w] by simp
    have ih: "run_tasks (map st rs) ?w =
        (fst (run_task_refs rs (st(r := ?t)) ?w),
         map (fst (snd (run_task_refs rs (st(r := ?t)) ?w))) rs,
         snd (snd (run_task_refs rs (st(r := ?t)) ?w)))"
      using Cons.IH [OF dr, of "st(r := ?t)" ?w] by (simp only: m)
    show ?thesis
      using True
      by (simp add: run_tasks_Cons run_task_refs_Cons ih o
            del: run_tasks.simps(2) run_task_refs.simps(2) fun_upd_apply)
  next
    case False
    have o: "fst (snd (run_task_refs rs st (snd (should_run (st r) w)))) r = st r"
      by (rule run_task_refs_outside [OF nr])
    show ?thesis
      using False
      by (simp add: run_tasks_Cons run_task_refs_Cons o Cons.IH [OF dr]
            del: run_tasks.simps(2) run_task_refs.simps(2))
  qed
qed

text \<open>With distinct objects the two embeddings of \<^verbatim>\<open>pulse\<close> agree.\<close>

lemma pulse_ref_distinct:
  assumes "distinct (task_refs h)"
  shows "pulse (deref st h) w =
     (case pulse_ref h st w of
        Inl e \<Rightarrow> Inl e
      | Inr (p, h', st', w') \<Rightarrow> Inr (p, deref st' h', w'))"
proof (cases "py_add_one (refs_pulse_count h)")
  case (Inl e)
  then show ?thesis by (simp add: pulse_def pulse_ref_def deref_def)
next
  case (Inr c)
  then have c: "py_add_one (pulse_count (deref st h)) = Inr c" by (simp add: deref_def)
  have t: "tasks (deref st h) = map st (task_refs h)" by (simp add: deref_def)
  let ?ex = "fst (run_task_refs (task_refs h) st w)"
  let ?st = "fst (snd (run_task_refs (task_refs h) st w))"
  let ?w = "snd (snd (run_task_refs (task_refs h) st w))"
  let ?p = "pulse_of c ?ex (wall ?w (reads ?w))"
  have lhs: "pulse (deref st h) w =
      Inr (?p, (deref st h)\<lparr>pulse_count := c, tasks := map ?st (task_refs h)\<rparr>,
           save_state ((deref st h)\<lparr>pulse_count := c, tasks := map ?st (task_refs h)\<rparr>)
             (log_pulse ?p (?w\<lparr>reads := Suc (reads ?w)\<rparr>)))"
    by (simp only: pulse_Inr [OF c] t run_task_refs_distinct [OF assms] Let_def fst_conv snd_conv)
  have rhs: "pulse_ref h st w =
      Inr (?p, h\<lparr>refs_pulse_count := c\<rparr>, ?st,
           save_state (deref ?st (h\<lparr>refs_pulse_count := c\<rparr>))
             (log_pulse ?p (?w\<lparr>reads := Suc (reads ?w)\<rparr>)))"
    by (simp add: pulse_ref_def Inr Let_def HeartbeatPulse_init_def now_def pulse_of_def
          split: prod.splits)
  have v: "(deref st h)\<lparr>pulse_count := c, tasks := map ?st (task_refs h)\<rparr>
           = deref ?st (h\<lparr>refs_pulse_count := c\<rparr>)"
    by (simp add: deref_def)
  show ?thesis by (simp only: lhs rhs v sum.case prod.case)
qed

lemma register_all_refs:
  "task_refs (foldl (register_task_ref st) (h0\<lparr>task_refs := []\<rparr>) rs)
     = sort_key (\<lambda>r. - priority (st r)) rs"
proof (induction rs rule: rev_induct)
  case Nil
  then show ?case by simp
next
  case (snoc r rs)
  then show ?case by (simp add: register_task_ref_def sort_key_snoc_sorted)
qed

lemma sorted_neg_priority_refs:
  "sorted (map (\<lambda>r. - priority (st r)) xs) = sorted_wrt (\<lambda>a b. priority (st a) \<ge> priority (st b)) xs"
  by (simp add: sorted_map)

lemma pulse_ref_Inr:
  assumes "pulse_ref h st w = Inr (p, h', st', w')"
  shows "details p = fst (run_task_refs (task_refs h) st w)"
    and "st' = fst (snd (run_task_refs (task_refs h) st w))"
    and "ext w' = ext (snd (snd (run_task_refs (task_refs h) st w)))"
    and "task_refs h' = task_refs h"
proof -
  from assms obtain c where c: "py_add_one (refs_pulse_count h) = Inr c"
    by (cases "py_add_one (refs_pulse_count h)") (simp_all add: pulse_ref_def)
  from assms show "details p = fst (run_task_refs (task_refs h) st w)"
    "st' = fst (snd (run_task_refs (task_refs h) st w))"
    "ext w' = ext (snd (snd (run_task_refs (task_refs h) st w)))"
    "task_refs h' = task_refs h"
    by (auto simp add: pulse_ref_def c Let_def HeartbeatPulse_init_def now_def details_def
          log_pulse_def save_state_simps split: prod.splits)
qed

subsection \<open>Concrete clock readings\<close>

lemma total_seconds_0: "total_seconds 0 = 0"
  by (simp add: total_seconds_def round_double_def round_half_even_def)

lemma total_seconds_late: "total_seconds 17179869184999999 = 17179869185"
proof -
  have r: "round_half_even (17179869184999999 / 1000000 / pow2 (int 34 - 52)) = 4503599627632640"
    by (rule round_half_even_eqI) (simp_all add: pow2_def)
  have "round_double (17179869184999999 / 1000000)
        = of_int (round_half_even (17179869184999999 / 1000000 / pow2 (int 34 - 52)))
            * pow2 (int 34 - 52)"
    by (rule round_double_binade) simp_all
  also have "\<dots> = 17179869185"
    by (simp only: r) (simp add: pow2_def)
  finally show ?thesis by (simp add: total_seconds_def)
qed

lemma rested_not_due:
  "\<not> fst (should_run (tasks rested_hb ! 0) (seconds_world\<lparr>reads := reads seconds_world + 0\<rparr>))"
  "\<not> fst (should_run (tasks rested_hb ! Suc 0) (seconds_world\<lparr>reads := reads seconds_world + Suc 0\<rparr>))"
proof -
  have t: "last_run (tasks rested_hb ! 0) = Some 0" "last_run (tasks rested_hb ! Suc 0) = Some 0"
    "interval (tasks rested_hb ! 0) = 3600" "interval (tasks rested_hb ! Suc 0) = 600"
    by (simp_all add: rested_hb_def empty_hb_def failing_task_def steady_task_def
          AutonomousTask_init_def)
  have "case last_run (tasks rested_hb ! 0) of None \<Rightarrow> True
        | Some lr \<Rightarrow> \<bar>wall (seconds_world\<lparr>reads := reads seconds_world + 0\<rparr>)
                        (reads (seconds_world\<lparr>reads := reads seconds_world + 0\<rparr>)) - lr\<bar>
                      < 2 ^ 34 * 1000000"
    by (simp add: t seconds_world_def)
  from should_run_spec [OF this]
  show "\<not> fst (should_run (tasks rested_hb ! 0) (seconds_world\<lparr>reads := reads seconds_world + 0\<rparr>))"
    by (simp add: spec_should_run_def t seconds_world_def)
  have "case last_run (tasks rested_hb ! Suc 0) of None \<Rightarrow> True
        | Some lr \<Rightarrow> \<bar>wall (seconds_world\<lparr>reads := reads seconds_world + Suc 0\<rparr>)
                        (reads (seconds_world\<lparr>reads := reads seconds_world + Suc 0\<rparr>)) - lr\<bar>
                      < 2 ^ 34 * 1000000"
    by (simp add: t seconds_world_def)
  from should_run_spec [OF this]
  show "\<not> fst (should_run (tasks rested_hb ! Suc 0) (seconds_world\<lparr>reads := reads seconds_world + Suc 0\<rparr>))"
    by (simp add: spec_should_run_def t seconds_world_def)
qed

section \<open>The claims\<close>

subsection \<open>Failure of an action\<close>

text \<open>
  C1, as the code has it. When the action raises, \<^verbatim>\<open>execute()\<close> returns
  \<^verbatim>\<open>{"success": False, "error": str(e)}\<close> and adds one to \<^verbatim>\<open>errors\<close>; \<^verbatim>\<open>last_run\<close> and
  \<^verbatim>\<open>run_count\<close> keep their values and the clock is not read. \<^verbatim>\<open>last_run\<close> is assigned
  only on the path where the action returns.
\<close>

theorem execute_failure:
  assumes "action t (ext w) = (Raised e, x)" and "execute t w = (r, t', w')"
  shows "r = PDict [(''success'', PBool False), (''error'', PStr e)]
       \<and> errors t' = errors t + 1
       \<and> last_run t' = last_run t
       \<and> run_count t' = run_count t
       \<and> reads w' = reads w"
  using assms by (auto simp: execute_Raised failure_def)

theorem execute_failure_witness:
  "action failing_task (ext still_world) = (Raised ''boom'', ())
   \<and> execute failing_task still_world
       = (PDict [(''success'', PBool False), (''error'', PStr ''boom'')],
          failing_task\<lparr>errors := 1\<rparr>, still_world)
   \<and> errors (failing_task\<lparr>errors := 1\<rparr>) = errors failing_task + 1
   \<and> last_run (failing_task\<lparr>errors := 1\<rparr>) = last_run failing_task"
proof -
  have a: "action failing_task (ext still_world) = (Raised ''boom'', ())"
    by (simp add: failing_task_def AutonomousTask_init_def)
  have b: "execute failing_task still_world
       = (PDict [(''success'', PBool False), (''error'', PStr ''boom'')],
          failing_task\<lparr>errors := 1\<rparr>, still_world)"
    by (simp add: execute_def failing_task_def AutonomousTask_init_def still_world_def)
  from execute_failure [OF a b] a b show ?thesis by simp
qed

text \<open>
  A task that has never run and whose action raises: after \<^verbatim>\<open>execute()\<close> its \<^verbatim>\<open>last_run\<close>
  is still \<^verbatim>\<open>None\<close>, not the current reading of the clock.
\<close>

theorem execute_failure_counterexample:
  "fst (action failing_task (ext still_world)) = Raised ''boom''
   \<and> last_run (fst (snd (execute failing_task still_world))) = None
   \<and> last_run (fst (snd (execute failing_task still_world)))
        \<noteq> Some (wall still_world (reads still_world))"
  by (simp add: failing_task_def AutonomousTask_init_def execute_def still_world_def)

text \<open>
  C2, as the code has it. A task that has never succeeded and whose action always raises
  is invoked on every tick, however close the ticks are: over \<open>k\<close> successive ticks every
  pulse lists its failure, \<^verbatim>\<open>errors\<close> grows by \<open>k\<close>, and \<^verbatim>\<open>last_run\<close> stays \<^verbatim>\<open>None\<close>.
\<close>

theorem always_failing_retried_every_tick:
  assumes "pulse_count hb = PInt n"
      and "i < length (tasks hb)"
      and "last_run (tasks hb ! i) = None"
      and "\<forall>x. fails_at (tasks hb ! i) x"
  shows "\<exists>ps hb' w'. ticks k hb w = Inr (ps, hb', w')
     \<and> length ps = k
     \<and> (\<forall>p\<in>set ps. \<exists>e. entry (name (tasks hb ! i)) (failure e) \<in> set (details p))
     \<and> errors (tasks hb' ! i) = errors (tasks hb ! i) + int k
     \<and> run_count (tasks hb' ! i) = run_count (tasks hb ! i)
     \<and> last_run (tasks hb' ! i) = None"
  using assms
proof (induction k arbitrary: hb w n)
  case 0
  then show ?case by simp
next
  case (Suc k)
  have a: "py_add_one (pulse_count hb) = Inr (PInt (n + 1))" using Suc.prems(1) by simp
  note rf = run_tasks_failing [OF Suc.prems(2,3,4), of w]
  note fr = run_tasks_nth_frame [OF Suc.prems(2), of w]
  obtain p hb1 w1 where p: "pulse hb w = Inr (p, hb1, w1)"
    and d: "details p = fst (run_tasks (tasks hb) w)"
    and t1: "tasks hb1 = fst (snd (run_tasks (tasks hb) w))"
    and c1: "pulse_count hb1 = PInt (n + 1)"
    using pulse_Inr [OF a, of w] by (simp add: Let_def pulse_of_simps)
  have i1: "i < length (tasks hb1)" using Suc.prems(2) by (simp add: t1 run_tasks_length)
  have l1: "last_run (tasks hb1 ! i) = None" using rf by (simp add: t1)
  have f1: "\<forall>x. fails_at (tasks hb1 ! i) x"
    using Suc.prems(4) fr(2) by (simp add: t1 fails_at_def)
  from Suc.IH [OF c1 i1 l1 f1, of w1] obtain ps hb' w' where
    t: "ticks k hb1 w1 = Inr (ps, hb', w')" and len: "length ps = k"
    and ex: "\<forall>p\<in>set ps. \<exists>e. entry (name (tasks hb1 ! i)) (failure e) \<in> set (details p)"
    and er: "errors (tasks hb' ! i) = errors (tasks hb1 ! i) + int k"
    and rc: "run_count (tasks hb' ! i) = run_count (tasks hb1 ! i)"
    and lr: "last_run (tasks hb' ! i) = None" by blast
  have nm: "name (tasks hb1 ! i) = name (tasks hb ! i)" using fr(1) by (simp add: t1)
  have "ticks (Suc k) hb w = Inr (p # ps, hb', w')" using p t by simp
  moreover have "length (p # ps) = Suc k" using len by simp
  moreover have "\<forall>q\<in>set (p # ps). \<exists>e. entry (name (tasks hb ! i)) (failure e) \<in> set (details q)"
    using ex rf nm d by auto
  moreover have "errors (tasks hb' ! i) = errors (tasks hb ! i) + int (Suc k)"
    using er rf by (simp add: t1)
  moreover have "run_count (tasks hb' ! i) = run_count (tasks hb ! i)"
    using rc rf by (simp add: t1)
  ultimately show ?case using lr by blast
qed

theorem always_failing_retried_every_tick_witness:
  "pulse_count broken_hb = PInt 0
   \<and> 0 < length (tasks broken_hb)
   \<and> last_run (tasks broken_hb ! 0) = None
   \<and> (\<forall>x. fails_at (tasks broken_hb ! 0) x)
   \<and> (\<exists>ps hb' w'. ticks 3 broken_hb seconds_world = Inr (ps, hb', w')
        \<and> length ps = 3
        \<and> (\<forall>p\<in>set ps. \<exists>e. entry ''broken'' (failure e) \<in> set (details p))
        \<and> errors (tasks hb' ! 0) = 3
        \<and> last_run (tasks hb' ! 0) = None)"
proof -
  have t: "tasks broken_hb = [failing_task]"
    by (simp add: broken_hb_def empty_hb_def register_task_def)
  have h1: "pulse_count broken_hb = PInt 0"
    by (simp add: broken_hb_def empty_hb_def register_task_def)
  have h2: "0 < length (tasks broken_hb)" by (simp add: t)
  have h3: "last_run (tasks broken_hb ! 0) = None"
    by (simp add: t failing_task_def AutonomousTask_init_def)
  have h4: "\<forall>x. fails_at (tasks broken_hb ! 0) x"
    by (simp add: t failing_task_def AutonomousTask_init_def fails_at_def)
  have v: "name (tasks broken_hb ! 0) = ''broken''" "errors (tasks broken_hb ! 0) + int 3 = 3"
    by (simp_all add: t failing_task_def AutonomousTask_init_def)
  from always_failing_retried_every_tick [OF h1 h2 h3 h4, of 3 seconds_world]
  have "\<exists>ps hb' w'. ticks 3 broken_hb seconds_world = Inr (ps, hb', w')
        \<and> length ps = 3
        \<and> (\<forall>p\<in>set ps. \<exists>e. entry ''broken'' (failure e) \<in> set (details p))
        \<and> errors (tasks hb' ! 0) = 3
        \<and> last_run (tasks hb' ! 0) = None"
    by (simp only: v) metis
  with h1 h2 h3 h4 show ?thesis by - (intro conjI; assumption)
qed

text \<open>
  A task with an interval of 3600 seconds whose action always raises, alone in the
  registry: two ticks whose pulses are stamped two seconds apart both execute it.
\<close>

theorem always_failing_retried_every_tick_counterexample:
  "ticks 2 broken_hb seconds_world =
     Inr ([pulse_of (PInt 1) [entry ''broken'' (failure ''boom'')] 0,
           pulse_of (PInt 2) [entry ''broken'' (failure ''boom'')] 2000000],
          broken_hb\<lparr>tasks := [failing_task\<lparr>errors := 2\<rparr>], pulse_count := PInt 2\<rparr>,
          seconds_world\<lparr>reads := 4,
            heartbeat_log := [to_dict (pulse_of (PInt 1) [entry ''broken'' (failure ''boom'')] 0),
                              to_dict (pulse_of (PInt 2) [entry ''broken'' (failure ''boom'')] 2000000)],
            heartbeat_state := Some (Json (PDict [(''total_pulses'', PInt 2),
                                                  (''running'', PBool False),
                                                  (''start_time'', PNone),
                                                  (''tasks'', PInt 1),
                                                  (''last_save'', PIso 3000000)]))\<rparr>)
   \<and> fails_at failing_task ()
   \<and> (2000000::int) - 0 < interval failing_task * 1000000"
  by (simp add: failing_task_def seconds_world_def empty_hb_def broken_hb_def
        AutonomousTask_init_def register_task_def numeral_2_eq_2 pulse_def should_run_def
        execute_def now_def HeartbeatPulse_init_def log_pulse_def save_state_def pulse_of_def
        entry_def failure_def fails_at_def Let_def)

subsection \<open>Configuration\<close>

text \<open>
  C3, as the code has it. Neither the constructor nor \<^verbatim>\<open>register_task\<close> checks the
  interval: for every interval, zero and negative ones included, the task is built with
  that interval and joins the registry.
\<close>

theorem invalid_interval_accepted:
  "interval (AutonomousTask_init nm i act prio) = i
   \<and> AutonomousTask_init nm i act prio
       \<in> set (tasks (register_task hb (AutonomousTask_init nm i act prio)))
   \<and> length (tasks (register_task hb (AutonomousTask_init nm i act prio))) = Suc (length (tasks hb))"
  by (simp add: AutonomousTask_init_def register_task_def)

text \<open>Tasks with the intervals 0 and -5 are constructed and registered.\<close>

theorem invalid_interval_accepted_counterexample:
  "interval (AutonomousTask_init ''zero'' 0 (\<lambda>x. (Returned PNone, x)) 5) = 0
   \<and> interval (AutonomousTask_init ''minus'' (- 5) (\<lambda>x. (Returned PNone, x)) 5) = - 5
   \<and> map interval (tasks (register_task (register_task empty_hb
         (AutonomousTask_init ''zero'' 0 (\<lambda>x. (Returned PNone, x)) 5))
         (AutonomousTask_init ''minus'' (- 5) (\<lambda>x. (Returned PNone, x)) 5))) = [0, - 5]"
  by (simp add: AutonomousTask_init_def register_task_def empty_hb_def)

subsection \<open>Pulse numbers\<close>

text \<open>
  C4. From a scheduler whose counter is the integer \<open>n\<close>, \<open>k\<close> successive ticks record the
  pulse numbers \<open>n + 1, \<dots>, n + k\<close>. After \<^verbatim>\<open>stop()\<close>, a scheduler constructed anew from the
  files left behind takes the counter from the snapshot, and its next \<open>m\<close> ticks record
  \<open>n + k + 1, \<dots>, n + k + m\<close>: no number is repeated or skipped. The counter of a scheduler
  is an integer whenever the snapshot it was loaded from was absent or written by a
  scheduler.
\<close>

theorem pulse_numbers_consecutive:
  assumes "pulse_count hb = PInt n"
  shows "\<exists>ps hb1 w1. ticks k hb w = Inr (ps, hb1, w1)
     \<and> map pulse_number ps = map (\<lambda>i. Some (PInt (n + 1 + int i))) [0..<k]
     \<and> (\<exists>qs hb2 w2.
           ticks m (OrionHeartbeat_init acts (snd (snd (stop hb1 w1)))) (snd (snd (stop hb1 w1)))
             = Inr (qs, hb2, w2)
         \<and> map pulse_number qs = map (\<lambda>i. Some (PInt (n + int k + 1 + int i))) [0..<m])"
proof -
  from ticks_numbers [OF assms, of k w] obtain ps hb1 w1 where
    t: "ticks k hb w = Inr (ps, hb1, w1)"
    and ns: "map pulse_number ps = map (\<lambda>i. Some (PInt (n + 1 + int i))) [0..<k]"
    and c1: "pulse_count hb1 = PInt (n + int k)" by blast
  let ?w = "snd (snd (stop hb1 w1))"
  have "pulse_count (OrionHeartbeat_init acts ?w) = PInt (n + int k)"
    by (simp add: stop_simps init_after_save c1)
  from ticks_numbers [OF this, of m ?w] obtain qs hb2 w2 where
    "ticks m (OrionHeartbeat_init acts ?w) ?w = Inr (qs, hb2, w2)"
    "map pulse_number qs = map (\<lambda>i. Some (PInt (n + int k + 1 + int i))) [0..<m]" by blast
  with t ns show ?thesis by blast
qed

theorem pulse_numbers_consecutive_witness:
  "pulse_count broken_hb = PInt 0
   \<and> (\<exists>ps hb1 w1. ticks 2 broken_hb seconds_world = Inr (ps, hb1, w1)
        \<and> map pulse_number ps = [Some (PInt 1), Some (PInt 2)]
        \<and> (\<exists>qs hb2 w2.
              ticks 1 (OrionHeartbeat_init quiet_actions (snd (snd (stop hb1 w1))))
                      (snd (snd (stop hb1 w1))) = Inr (qs, hb2, w2)
            \<and> map pulse_number qs = [Some (PInt 3)]))"
proof -
  have h: "pulse_count broken_hb = PInt 0" by (simp add: broken_hb_def empty_hb_def register_task_def)
  have "[0..<2] = [0, Suc 0]" by (simp add: numeral_2_eq_2)
  with pulse_numbers_consecutive [OF h, of 2 seconds_world 1 quiet_actions] h
  show ?thesis by simp
qed

subsection \<open>Registration order and execution order\<close>

text \<open>
  C5. The objects at the addresses \<open>rs\<close> are registered one by one, an address possibly
  more than once. The registry is then the stable sort of \<open>rs\<close> by descending priority: it
  is sorted by descending priority, holds the same addresses as often, and addresses of
  equal priority keep their registration order. A tick goes through the registry in
  that order, one turn each: the pulse holds exactly the outcomes of the turns that were
  due, in that order, each outcome being what \<^verbatim>\<open>execute()\<close> returned in the store and the
  world the earlier turns left; the store and the external state after the tick are
  those after the last turn.
\<close>

theorem registry_and_tick_order:
  assumes "h = foldl (register_task_ref st) (h0\<lparr>task_refs := []\<rparr>) rs"
      and "pulse_ref h st w = Inr (p, h', st', w')"
  shows "task_refs h = sort_key (\<lambda>r. - priority (st r)) rs
     \<and> sorted_wrt (\<lambda>a b. priority (st a) \<ge> priority (st b)) (task_refs h)
     \<and> mset (task_refs h) = mset rs
     \<and> (\<forall>k. filter (\<lambda>r. priority (st r) = k) (task_refs h) = filter (\<lambda>r. priority (st r) = k) rs)
     \<and> details p = map (turn_entry (task_refs h) st w)
                     (filter (turn_due (task_refs h) st w) [0..<length (task_refs h)])
     \<and> st' = fst (after_turns (task_refs h) st w (length (task_refs h)))
     \<and> ext w' = ext (snd (after_turns (task_refs h) st w (length (task_refs h))))
     \<and> task_refs h' = task_refs h"
proof -
  have r: "task_refs h = sort_key (\<lambda>r. - priority (st r)) rs"
    by (simp add: assms(1) register_all_refs)
  have s: "sorted_wrt (\<lambda>a b. priority (st a) \<ge> priority (st b)) (task_refs h)"
    using sorted_sort_key [of "\<lambda>r. - priority (st r)" rs] by (simp add: r sorted_neg_priority_refs)
  have m: "mset (task_refs h) = mset rs" by (simp add: r)
  have f: "\<forall>k. filter (\<lambda>r. priority (st r) = k) (task_refs h) = filter (\<lambda>r. priority (st r) = k) rs"
  proof
    fix k
    show "filter (\<lambda>r. priority (st r) = k) (task_refs h) = filter (\<lambda>r. priority (st r) = k) rs"
      using sort_key_stable [of "\<lambda>r. - priority (st r)" "- k" rs] by (simp add: r)
  qed
  note q = pulse_ref_Inr [OF assms(2)]
  note t = run_task_refs_turns [of "task_refs h" st w]
  have d: "details p = map (turn_entry (task_refs h) st w)
                     (filter (turn_due (task_refs h) st w) [0..<length (task_refs h)])"
    by (simp add: q(1) t)
  have st: "st' = fst (after_turns (task_refs h) st w (length (task_refs h)))"
    by (simp add: q(2) t)
  have e: "ext w' = ext (snd (after_turns (task_refs h) st w (length (task_refs h))))"
    by (simp add: q(3) t)
  from r s m f d st e q(4) show ?thesis by - (intro conjI; assumption)
qed

text \<open>
  The object of priority 5 is registered, then the one of priority 9, then the first
  again. The registry lists the second object first. In the first tick both execute
  once: at its second turn the first object has just run and is not due.
\<close>

theorem registry_and_tick_order_witness:
  "\<exists>p h' st' w'.
       pulse_ref (foldl (register_task_ref shared_store) (shared_hb\<lparr>task_refs := []\<rparr>) [0, 1, 0])
                 shared_store still_world = Inr (p, h', st', w')
     \<and> task_refs (foldl (register_task_ref shared_store) (shared_hb\<lparr>task_refs := []\<rparr>) [0, 1, 0])
         = [1, 0, 0]
     \<and> details p
         = [entry ''every20'' (PDict [(''success'', PBool True), (''result'', PNone)]),
            entry ''every10'' (PDict [(''success'', PBool True), (''result'', PNone)])]
     \<and> run_count (st' 0) = 1
     \<and> run_count (st' 1) = 1"
proof -
  let ?h = "foldl (register_task_ref shared_store) (shared_hb\<lparr>task_refs := []\<rparr>) [0, 1, 0]"
  have t: "task_refs ?h = [1, 0, 0]"
    by (simp add: register_task_ref_def shared_hb_def shared_store_def task10_def task20_def
          AutonomousTask_init_def)
  have c: "py_add_one (refs_pulse_count ?h) = Inr (PInt 1)"
    by (simp add: register_task_ref_def shared_hb_def)
  have "\<exists>p h' st' w'. pulse_ref ?h shared_store still_world = Inr (p, h', st', w')"
    unfolding pulse_ref_def c by (simp add: Let_def split: prod.splits)
  then obtain p h' st' w' where p: "pulse_ref ?h shared_store still_world = Inr (p, h', st', w')"
    by blast
  note r = registry_and_tick_order [OF refl p]
  have u: "[0..<length [1, 0, 0 :: nat]] = [0, Suc 0, Suc (Suc 0)]" by simp
  have d: "details p = map (turn_entry [1, 0, 0] shared_store still_world)
                     (filter (turn_due [1, 0, 0] shared_store still_world) [0, Suc 0, Suc (Suc 0)])"
    using r [THEN conjunct2, THEN conjunct2, THEN conjunct2, THEN conjunct2, THEN conjunct1]
    by (simp only: t u)
  have s: "st' = fst (after_turns [1, 0, 0] shared_store still_world (Suc (Suc (Suc 0))))"
    using r [THEN conjunct2, THEN conjunct2, THEN conjunct2, THEN conjunct2, THEN conjunct2,
      THEN conjunct1]
    by (simp only: t) simp
  have d': "details p
         = [entry ''every20'' (PDict [(''success'', PBool True), (''result'', PNone)]),
            entry ''every10'' (PDict [(''success'', PBool True), (''result'', PNone)])]"
    by (simp add: d turn_entry_def turn_due_def should_run_def execute_def now_def
          shared_store_def task10_def task20_def AutonomousTask_init_def still_world_def
          total_seconds_0 Let_def)
  have r0: "run_count (st' 0) = 1" and r1: "run_count (st' 1) = 1"
    by (simp_all add: s should_run_def execute_def now_def
          shared_store_def task10_def task20_def AutonomousTask_init_def still_world_def
          total_seconds_0 Let_def)
  from p t d' r0 r1 show ?thesis by - (intro exI conjI; assumption)
qed

subsection \<open>The due test\<close>

text \<open>
  C6, as the code has it. \<^verbatim>\<open>should_run()\<close> changes neither the task nor the files nor the
  external state; it only reads the clock. Whenever \<open>now\<close>, the reading it takes, is
  less than \<open>2\<^sup>3\<^sup>4\<close> seconds away from \<^verbatim>\<open>last_run\<close>, it returns true iff \<^verbatim>\<open>last_run\<close> is absent
  or \<open>now - last_run \<ge> interval\<close>. After the task has executed successfully with the
  clock reading \<open>t\<close>, \<^verbatim>\<open>should_run()\<close> is false for every query time before
  \<open>t + interval\<close> and true from \<open>t + interval\<close> on, for the query times less than \<open>2\<^sup>3\<^sup>4\<close>
  seconds away from \<open>t\<close>. Farther away the elapsed seconds are a rounded float, and the
  comparison is that of the rounded value.
\<close>

theorem should_run_refines_spec:
  "((case last_run t of None \<Rightarrow> True
      | Some lr \<Rightarrow> \<bar>wall w (reads w) - lr\<bar> < 2 ^ 34 * 1000000) \<longrightarrow>
      fst (should_run t w) = spec_should_run t (wall w (reads w)))
   \<and> heartbeat_log (snd (should_run t w)) = heartbeat_log w
   \<and> heartbeat_state (snd (should_run t w)) = heartbeat_state w
   \<and> ext (snd (should_run t w)) = ext w
   \<and> wall (snd (should_run t w)) = wall w
   \<and> (\<forall>r x q. action t (ext w) = (Returned r, x) \<longrightarrow>
        \<bar>wall q (reads q) - wall w (reads w)\<bar> < 2 ^ 34 * 1000000 \<longrightarrow>
        fst (should_run (fst (snd (execute t w))) q)
          = (wall w (reads w) + interval t * 1000000 \<le> wall q (reads q)))"
proof -
  have a: "fst (should_run t w) = spec_should_run t (wall w (reads w))"
    if "case last_run t of None \<Rightarrow> True
        | Some lr \<Rightarrow> \<bar>wall w (reads w) - lr\<bar> < 2 ^ 34 * 1000000"
    using that by (rule should_run_spec)
  have b: "fst (should_run (fst (snd (execute t w))) q)
          = (wall w (reads w) + interval t * 1000000 \<le> wall q (reads q))"
    if e: "action t (ext w) = (Returned r, x)"
      and n: "\<bar>wall q (reads q) - wall w (reads w)\<bar> < 2 ^ 34 * 1000000" for r x q
  proof -
    let ?t = "fst (snd (execute t w))"
    have l: "last_run ?t = Some (wall w (reads w))" and i: "interval ?t = interval t"
      by (simp_all add: execute_Returned [OF e])
    have "case last_run ?t of None \<Rightarrow> True
          | Some lr \<Rightarrow> \<bar>wall q (reads q) - lr\<bar> < 2 ^ 34 * 1000000"
      using n by (simp add: l)
    from should_run_spec [OF this] show ?thesis
      by (simp add: spec_should_run_def l i algebra_simps)
  qed
  from a b show ?thesis by (simp add: should_run_world)
qed

theorem should_run_refines_spec_witness:
  "last_run steady_task = None
   \<and> fst (should_run steady_task seconds_world) = True
   \<and> action steady_task (ext seconds_world) = (Returned PNone, ())
   \<and> \<bar>wall (seconds_world\<lparr>reads := 599\<rparr>) (reads (seconds_world\<lparr>reads := 599\<rparr>))
        - wall seconds_world (reads seconds_world)\<bar> < 2 ^ 34 * 1000000
   \<and> fst (should_run (fst (snd (execute steady_task seconds_world))) (seconds_world\<lparr>reads := 599\<rparr>))
       = False
   \<and> \<bar>wall (seconds_world\<lparr>reads := 600\<rparr>) (reads (seconds_world\<lparr>reads := 600\<rparr>))
        - wall seconds_world (reads seconds_world)\<bar> < 2 ^ 34 * 1000000
   \<and> fst (should_run (fst (snd (execute steady_task seconds_world))) (seconds_world\<lparr>reads := 600\<rparr>))
       = True"
proof -
  have l: "last_run steady_task = None" and i: "interval steady_task = 600"
    by (simp_all add: steady_task_def AutonomousTask_init_def)
  have a: "action steady_task (ext seconds_world) = (Returned PNone, ())"
    by (simp add: steady_task_def AutonomousTask_init_def)
  have b1: "\<bar>wall (seconds_world\<lparr>reads := 599\<rparr>) (reads (seconds_world\<lparr>reads := 599\<rparr>))
        - wall seconds_world (reads seconds_world)\<bar> < 2 ^ 34 * 1000000"
    and b2: "\<bar>wall (seconds_world\<lparr>reads := 600\<rparr>) (reads (seconds_world\<lparr>reads := 600\<rparr>))
        - wall seconds_world (reads seconds_world)\<bar> < 2 ^ 34 * 1000000"
    by (simp_all add: seconds_world_def)
  note s = should_run_refines_spec [where t = steady_task and w = seconds_world]
  have h0: "case last_run steady_task of None \<Rightarrow> True
            | Some lr \<Rightarrow> \<bar>wall seconds_world (reads seconds_world) - lr\<bar> < 2 ^ 34 * 1000000"
    by (simp add: l)
  have c0: "fst (should_run steady_task seconds_world) = True"
    using s [THEN conjunct1, rule_format, OF h0] by (simp add: spec_should_run_def l)
  note s5 = s [THEN conjunct2, THEN conjunct2, THEN conjunct2, THEN conjunct2, THEN conjunct2,
    rule_format, OF a]
  have c1: "fst (should_run (fst (snd (execute steady_task seconds_world)))
                 (seconds_world\<lparr>reads := 599\<rparr>)) = False"
    using s5 [OF b1] by (simp add: i seconds_world_def)
  have c2: "fst (should_run (fst (snd (execute steady_task seconds_world)))
                 (seconds_world\<lparr>reads := 600\<rparr>)) = True"
    using s5 [OF b2] by (simp add: i seconds_world_def)
  from l c0 a b1 c1 b2 c2 show ?thesis by - (intro conjI; assumption)
qed

text \<open>
  A task that has never run fails at time 0; queried at time 0, within its interval of
  3600 seconds, \<^verbatim>\<open>should_run()\<close> is true. And a task that ran at the epoch with an interval
  of \<open>2\<^sup>3\<^sup>4 + 1\<close> seconds is due one microsecond before the interval has elapsed.
\<close>

theorem should_run_refines_spec_counterexample:
  "fst (action failing_task (ext still_world)) = Raised ''boom''
   \<and> wall still_world (reads (snd (snd (execute failing_task still_world)))) = 0
   \<and> (0::int) < 0 + interval failing_task * 1000000
   \<and> fst (should_run (fst (snd (execute failing_task still_world)))
                      (snd (snd (execute failing_task still_world)))) = True
   \<and> last_run slow_task = Some 0
   \<and> wall late_world (reads late_world) - 0 < interval slow_task * 1000000
   \<and> fst (should_run slow_task late_world) = True"
proof -
  have a: "fst (action failing_task (ext still_world)) = Raised ''boom''
   \<and> wall still_world (reads (snd (snd (execute failing_task still_world)))) = 0
   \<and> (0::int) < 0 + interval failing_task * 1000000
   \<and> fst (should_run (fst (snd (execute failing_task still_world)))
                      (snd (snd (execute failing_task still_world)))) = True"
    by (simp add: failing_task_def AutonomousTask_init_def execute_def still_world_def
          should_run_def)
  have b: "last_run slow_task = Some 0"
    "wall late_world (reads late_world) - 0 < interval slow_task * 1000000"
    by (simp_all add: slow_task_def late_world_def AutonomousTask_init_def)
  have c: "fst (should_run slow_task late_world) = True"
    by (simp add: should_run_fst slow_task_def late_world_def AutonomousTask_init_def
          total_seconds_late)
  from a b c show ?thesis by simp
qed

subsection \<open>Ticks\<close>

text \<open>
  C7. When no task of the registry is due, that is, \<^verbatim>\<open>should_run()\<close> of each task is false
  at the reading of the clock it takes, \<^verbatim>\<open>pulse()\<close> returns a pulse with an empty list of
  executed tasks and the next pulse number, appends the dictionary of that pulse to the
  log, and writes the snapshot with the new counter.
\<close>

theorem idle_tick:
  assumes "pulse_count hb = PInt n"
      and "\<forall>i<length (tasks hb). \<not> fst (should_run (tasks hb ! i) (w\<lparr>reads := reads w + i\<rparr>))"
  shows "\<exists>p hb' w'. pulse hb w = Inr (p, hb', w')
     \<and> details p = []
     \<and> py_get (result p) ''tasks_executed'' = Some (PInt 0)
     \<and> pulse_number p = Some (PInt (n + 1))
     \<and> heartbeat_log w' = heartbeat_log w @ [to_dict p]
     \<and> py_get (to_dict p) ''result'' = Some (result p)
     \<and> heartbeat_state w' =
         Some (Json (PDict [(''total_pulses'', PInt (n + 1)),
                            (''running'', PBool (running hb)),
                            (''start_time'', (case start_time hb of None \<Rightarrow> PNone | Some s \<Rightarrow> PIso s)),
                            (''tasks'', PInt (int (length (tasks hb)))),
                            (''last_save'', PIso (wall w (Suc (reads w + length (tasks hb)))))]))
     \<and> tasks hb' = tasks hb"
proof -
  have a: "py_add_one (pulse_count hb) = Inr (PInt (n + 1))" using assms(1) by simp
  note r = run_tasks_none_due [OF assms(2)]
  show ?thesis
    by (simp add: pulse_Inr [OF a] r Let_def pulse_of_simps save_state_simps log_pulse_def to_dict_def)
qed

theorem idle_tick_witness:
  "pulse_count rested_hb = PInt 0
   \<and> length (tasks rested_hb) = 2
   \<and> \<not> fst (should_run (tasks rested_hb ! 0) (seconds_world\<lparr>reads := reads seconds_world + 0\<rparr>))
   \<and> \<not> fst (should_run (tasks rested_hb ! Suc 0)
               (seconds_world\<lparr>reads := reads seconds_world + Suc 0\<rparr>))
   \<and> (\<exists>p hb' w'. pulse rested_hb seconds_world = Inr (p, hb', w')
        \<and> details p = []
        \<and> pulse_number p = Some (PInt 1)
        \<and> heartbeat_log w' = [to_dict p]
        \<and> heartbeat_state w' =
             Some (Json (PDict [(''total_pulses'', PInt 1), (''running'', PBool False),
                                (''start_time'', PNone), (''tasks'', PInt 2),
                                (''last_save'', PIso 3000000)])))"
proof -
  have h1: "pulse_count rested_hb = PInt 0" by (simp add: rested_hb_def empty_hb_def)
  have g: "length (tasks rested_hb) = 2" by (simp add: rested_hb_def empty_hb_def)
  have h2: "\<forall>i<length (tasks rested_hb).
         \<not> fst (should_run (tasks rested_hb ! i) (seconds_world\<lparr>reads := reads seconds_world + i\<rparr>))"
    using rested_not_due by (simp add: g numeral_2_eq_2 All_less_Suc)
  from idle_tick [OF h1 h2] obtain p hb' w' where
    "pulse rested_hb seconds_world = Inr (p, hb', w')" "details p = []"
    "pulse_number p = Some (PInt (0 + 1))"
    "heartbeat_log w' = heartbeat_log seconds_world @ [to_dict p]"
    "heartbeat_state w' =
         Some (Json (PDict [(''total_pulses'', PInt (0 + 1)),
                            (''running'', PBool (running rested_hb)),
                            (''start_time'', (case start_time rested_hb of None \<Rightarrow> PNone | Some s \<Rightarrow> PIso s)),
                            (''tasks'', PInt (int (length (tasks rested_hb)))),
                            (''last_save'', PIso (wall seconds_world (Suc (reads seconds_world + length (tasks rested_hb)))))]))"
    by blast
  moreover have "heartbeat_log seconds_world = []" "running rested_hb = False"
    "start_time rested_hb = None" "int (length (tasks rested_hb)) = 2"
    "wall seconds_world (Suc (reads seconds_world + length (tasks rested_hb))) = 3000000"
    by (simp_all add: rested_hb_def empty_hb_def seconds_world_def)
  ultimately have "pulse rested_hb seconds_world = Inr (p, hb', w')
        \<and> details p = []
        \<and> pulse_number p = Some (PInt 1)
        \<and> heartbeat_log w' = [to_dict p]
        \<and> heartbeat_state w' =
             Some (Json (PDict [(''total_pulses'', PInt 1), (''running'', PBool False),
                                (''start_time'', PNone), (''tasks'', PInt 2),
                                (''last_save'', PIso 3000000)]))"
    by simp
  then have e: "\<exists>p hb' w'. pulse rested_hb seconds_world = Inr (p, hb', w')
        \<and> details p = []
        \<and> pulse_number p = Some (PInt 1)
        \<and> heartbeat_log w' = [to_dict p]
        \<and> heartbeat_state w' =
             Some (Json (PDict [(''total_pulses'', PInt 1), (''running'', PBool False),
                                (''start_time'', PNone), (''tasks'', PInt 2),
                                (''last_save'', PIso 3000000)]))"
    by blast
  from h1 g rested_not_due e show ?thesis by - (intro conjI; assumption)
qed

text \<open>
  C8. A task \<open>t\<close> at any position of the registry that is due and whose action raises:
  \<^verbatim>\<open>pulse()\<close> still returns a pulse. Its details are those of the tasks before \<open>t\<close>, the failure
  entry of \<open>t\<close>, and whatever the loop makes of the tasks after \<open>t\<close> from the world the
  failed action left. Of \<open>t\<close> only \<^verbatim>\<open>errors\<close> changes; the scheduler's \<^verbatim>\<open>running\<close> flag is
  untouched, and the pulse is logged.
\<close>

theorem failure_contained:
  assumes "pulse_count hb = PInt n"
      and "tasks hb = xs @ t # ys"
      and "fst (should_run t (snd (snd (run_tasks xs w))))"
      and "action t (ext (snd (snd (run_tasks xs w)))) = (Raised e, x)"
  shows "\<exists>p hb' w'. pulse hb w = Inr (p, hb', w')
     \<and> details p = fst (run_tasks xs w) @ entry (name t) (failure e)
                    # fst (run_tasks ys (snd (should_run t (snd (snd (run_tasks xs w))))\<lparr>ext := x\<rparr>))
     \<and> tasks hb' = fst (snd (run_tasks xs w)) @ t\<lparr>errors := errors t + 1\<rparr>
                    # fst (snd (run_tasks ys (snd (should_run t (snd (snd (run_tasks xs w))))\<lparr>ext := x\<rparr>)))
     \<and> pulse_number p = Some (PInt (n + 1))
     \<and> pulse_count hb' = PInt (n + 1)
     \<and> running hb' = running hb
     \<and> heartbeat_log w' = heartbeat_log w @ [to_dict p]"
proof -
  have a: "py_add_one (pulse_count hb) = Inr (PInt (n + 1))" using assms(1) by simp
  let ?w1 = "snd (snd (run_tasks xs w))"
  have "action t (ext (snd (should_run t ?w1))) = (Raised e, x)"
    using assms(4) by (simp add: should_run_world)
  note ex = execute_Raised [OF this]
  have r: "run_tasks (t # ys) ?w1 =
      (entry (name t) (failure e) # fst (run_tasks ys (snd (should_run t ?w1)\<lparr>ext := x\<rparr>)),
       t\<lparr>errors := errors t + 1\<rparr> # fst (snd (run_tasks ys (snd (should_run t ?w1)\<lparr>ext := x\<rparr>))),
       snd (snd (run_tasks ys (snd (should_run t ?w1)\<lparr>ext := x\<rparr>))))"
    using assms(3) by (simp add: run_tasks_Cons ex del: run_tasks.simps(2))
  have l: "heartbeat_log (snd (snd (run_tasks ys (snd (should_run t ?w1)\<lparr>ext := x\<rparr>)))) = heartbeat_log w"
    by (simp add: run_tasks_world should_run_world)
  show ?thesis
    by (simp add: pulse_Inr [OF a] assms(2) run_tasks_append r Let_def pulse_of_simps
          save_state_simps log_pulse_def l del: run_tasks.simps(2))
qed

theorem failure_contained_witness:
  "pulse_count paired_hb = PInt 0
   \<and> tasks paired_hb = [] @ failing_task # [steady_task]
   \<and> fst (should_run failing_task (snd (snd (run_tasks [] still_world))))
   \<and> action failing_task (ext (snd (snd (run_tasks [] still_world)))) = (Raised ''boom'', ())
   \<and> (\<exists>p hb' w'. pulse paired_hb still_world = Inr (p, hb', w')
        \<and> details p = [entry ''broken'' (failure ''boom''),
                        entry ''steady'' (PDict [(''success'', PBool True), (''result'', PNone)])]
        \<and> map errors (tasks hb') = [1, 0]
        \<and> map run_count (tasks hb') = [0, 1])"
proof -
  have h1: "pulse_count paired_hb = PInt 0" by (simp add: paired_hb_def empty_hb_def register_task_def)
  have h2: "tasks paired_hb = [] @ failing_task # [steady_task]"
    by (simp add: paired_hb_def empty_hb_def register_task_def failing_task_def steady_task_def
          AutonomousTask_init_def)
  have h3: "fst (should_run failing_task (snd (snd (run_tasks [] still_world))))"
    by (simp add: should_run_def failing_task_def AutonomousTask_init_def)
  have h4: "action failing_task (ext (snd (snd (run_tasks [] still_world)))) = (Raised ''boom'', ())"
    by (simp add: failing_task_def AutonomousTask_init_def)
  from failure_contained [OF h1 h2 h3 h4] obtain p hb' w' where
    p: "pulse paired_hb still_world = Inr (p, hb', w')"
    and d: "details p = fst (run_tasks [] still_world) @ entry (name failing_task) (failure ''boom'')
              # fst (run_tasks [steady_task]
                      (snd (should_run failing_task (snd (snd (run_tasks [] still_world))))\<lparr>ext := ()\<rparr>))"
    and t: "tasks hb' = fst (snd (run_tasks [] still_world)) @ failing_task\<lparr>errors := errors failing_task + 1\<rparr>
              # fst (snd (run_tasks [steady_task]
                      (snd (should_run failing_task (snd (snd (run_tasks [] still_world))))\<lparr>ext := ()\<rparr>)))"
    by blast
  have l: "last_run failing_task = None" "last_run steady_task = None"
    "name failing_task = ''broken''" "name steady_task = ''steady''"
    "errors failing_task = 0" "errors steady_task = 0"
    "run_count failing_task = 0" "run_count steady_task = 0"
    "action steady_task = (\<lambda>x. (Returned PNone, x))"
    by (simp_all add: failing_task_def steady_task_def AutonomousTask_init_def)
  have d': "details p = [entry ''broken'' (failure ''boom''),
                        entry ''steady'' (PDict [(''success'', PBool True), (''result'', PNone)])]"
    by (simp add: d should_run_def execute_def now_def entry_def l)
  have e': "map errors (tasks hb') = [1, 0]"
    by (simp add: t should_run_def execute_def now_def l)
  have r': "map run_count (tasks hb') = [0, 1]"
    by (simp add: t should_run_def execute_def now_def l)
  from h1 h2 h3 h4 p d' e' r' show ?thesis by - (intro exI conjI; assumption)
qed

subsection \<open>Frame conditions\<close>

text \<open>
  C9. \<^verbatim>\<open>execute()\<close> adds one to \<^verbatim>\<open>run_count\<close> and leaves \<^verbatim>\<open>errors\<close> when the action
  returns, adds one to \<^verbatim>\<open>errors\<close> and leaves \<^verbatim>\<open>run_count\<close> and \<^verbatim>\<open>last_run\<close> when it raises,
  and never changes \<^verbatim>\<open>name\<close>, \<^verbatim>\<open>interval\<close>, \<^verbatim>\<open>priority\<close> or \<^verbatim>\<open>action\<close>; \<^verbatim>\<open>pulse()\<close> leaves these
  four fields of every task of the registry as they were. \<^verbatim>\<open>should_run()\<close> and \<^verbatim>\<open>status()\<close>
  assign to no attribute, so their embeddings return no task at all.
\<close>

theorem execute_and_pulse_frame:
  "(execute t w = (r, t', w') \<longrightarrow>
      name t' = name t \<and> interval t' = interval t \<and> priority t' = priority t \<and> action t' = action t
      \<and> (case fst (action t (ext w)) of
            Returned v \<Rightarrow> run_count t' = run_count t + 1 \<and> errors t' = errors t
          | Raised e \<Rightarrow> errors t' = errors t + 1 \<and> run_count t' = run_count t
                         \<and> last_run t' = last_run t))
   \<and> (pulse hb v = Inr (p, hb', v') \<longrightarrow>
        map name (tasks hb') = map name (tasks hb)
        \<and> map interval (tasks hb') = map interval (tasks hb)
        \<and> map priority (tasks hb') = map priority (tasks hb)
        \<and> map action (tasks hb') = map action (tasks hb))"
proof (intro conjI impI)
  assume e: "execute t w = (r, t', w')"
  then have t': "t' = fst (snd (execute t w))" by simp
  show "name t' = name t" "interval t' = interval t" "priority t' = priority t" "action t' = action t"
    by (simp_all add: t' execute_frame)
  show "case fst (action t (ext w)) of
            Returned v \<Rightarrow> run_count t' = run_count t + 1 \<and> errors t' = errors t
          | Raised e \<Rightarrow> errors t' = errors t + 1 \<and> run_count t' = run_count t
                         \<and> last_run t' = last_run t"
    by (cases rule: execute_cases [of t w]) (simp_all add: t' execute_Raised execute_Returned)
next
  assume p: "pulse hb v = Inr (p, hb', v')"
  then obtain c where c: "py_add_one (pulse_count hb) = Inr c"
    by (cases "py_add_one (pulse_count hb)") (simp_all add: pulse_def)
  from p have "tasks hb' = fst (snd (run_tasks (tasks hb) v))"
    by (auto simp add: pulse_Inr [OF c] Let_def)
  then show "map name (tasks hb') = map name (tasks hb)"
    "map interval (tasks hb') = map interval (tasks hb)"
    "map priority (tasks hb') = map priority (tasks hb)"
    "map action (tasks hb') = map action (tasks hb)"
    by (simp_all add: run_tasks_frame)
qed

theorem execute_and_pulse_frame_witness:
  "execute failing_task still_world
       = (PDict [(''success'', PBool False), (''error'', PStr ''boom'')],
          failing_task\<lparr>errors := 1\<rparr>, still_world)
   \<and> name (failing_task\<lparr>errors := 1\<rparr>) = name failing_task
   \<and> (\<exists>p hb' w'. pulse paired_hb still_world = Inr (p, hb', w')
        \<and> map name (tasks hb') = map name (tasks paired_hb)
        \<and> map interval (tasks hb') = map interval (tasks paired_hb)
        \<and> map priority (tasks hb') = map priority (tasks paired_hb)
        \<and> map action (tasks hb') = map action (tasks paired_hb))"
proof -
  have b: "execute failing_task still_world
       = (PDict [(''success'', PBool False), (''error'', PStr ''boom'')],
          failing_task\<lparr>errors := 1\<rparr>, still_world)"
    by (simp add: execute_def failing_task_def AutonomousTask_init_def still_world_def)
  have c: "py_add_one (pulse_count paired_hb) = Inr (PInt 1)"
    by (simp add: paired_hb_def empty_hb_def register_task_def)
  obtain p hb' w' where p: "pulse paired_hb still_world = Inr (p, hb', w')"
    using pulse_Inr [OF c, of still_world] by (simp add: Let_def)
  note f = execute_and_pulse_frame [of failing_task still_world _ _ _ paired_hb still_world p hb' w']
  from f [THEN conjunct1, rule_format, OF b] have n: "name (failing_task\<lparr>errors := 1\<rparr>) = name failing_task"
    by (elim conjE)
  from f [THEN conjunct2, rule_format, OF p] have
    "map name (tasks hb') = map name (tasks paired_hb)"
    "map interval (tasks hb') = map interval (tasks paired_hb)"
    "map priority (tasks hb') = map priority (tasks paired_hb)"
    "map action (tasks hb') = map action (tasks paired_hb)"
    by simp_all
  with b n p show ?thesis by - (intro exI conjI; assumption)
qed

subsection \<open>Loading the snapshot\<close>

text \<open>
  C10. Constructing a scheduler always yields a scheduler. If the snapshot file is
  absent, or reading it raises (a malformed file, or a value that is not a dictionary),
  the counter is 0; if it is a dictionary without \<^verbatim>\<open>total_pulses\<close>, the counter is the
  default 0. The six core tasks are registered and the scheduler is not running.
\<close>

theorem load_state_never_fails:
  "(heartbeat_state w = None \<longrightarrow> pulse_count (OrionHeartbeat_init acts w) = PInt 0)
   \<and> (heartbeat_state w = Some c \<longrightarrow> load_state_try c = Inl e \<longrightarrow>
        pulse_count (OrionHeartbeat_init acts w) = PInt 0)
   \<and> load_state_try Malformed = Inl JSONDecodeError
   \<and> (heartbeat_state w = Some (Json (PDict d)) \<longrightarrow> map_of d ''total_pulses'' = None \<longrightarrow>
        pulse_count (OrionHeartbeat_init acts w) = PInt 0)
   \<and> length (tasks (OrionHeartbeat_init acts w)) = 6
   \<and> \<not> running (OrionHeartbeat_init acts w)"
  by (simp add: init_pulse_count load_state_try_def OrionHeartbeat_init_def
        register_core_tasks_def register_task_def Let_def load_state_def
        split: option.splits sum.splits)

theorem load_state_never_fails_witness:
  "heartbeat_state still_world = None
   \<and> pulse_count (OrionHeartbeat_init quiet_actions still_world) = PInt 0
   \<and> heartbeat_state garbled_world = Some Malformed
   \<and> load_state_try Malformed = Inl JSONDecodeError
   \<and> pulse_count (OrionHeartbeat_init quiet_actions garbled_world) = PInt 0
   \<and> heartbeat_state partial_world = Some (Json (PDict [(''running'', PBool False)]))
   \<and> map_of [(''running'', PBool False)] ''total_pulses'' = None
   \<and> pulse_count (OrionHeartbeat_init quiet_actions partial_world) = PInt 0"
proof -
  have a: "heartbeat_state still_world = None" by (simp add: still_world_def)
  have b: "heartbeat_state garbled_world = Some Malformed" by (simp add: garbled_world_def)
  have c: "heartbeat_state partial_world = Some (Json (PDict [(''running'', PBool False)]))"
    by (simp add: partial_world_def)
  have d: "map_of [(''running'', PBool False)] ''total_pulses'' = None" by simp
  note l1 = load_state_never_fails [of still_world quiet_actions]
  note l2 = load_state_never_fails [of garbled_world quiet_actions Malformed JSONDecodeError]
  note l3 = load_state_never_fails [of partial_world quiet_actions _ _ "[(''running'', PBool False)]"]
  have m: "load_state_try Malformed = Inl JSONDecodeError"
    using l2 [THEN conjunct2, THEN conjunct2, THEN conjunct1] .
  have r1: "pulse_count (OrionHeartbeat_init quiet_actions still_world) = PInt 0"
    using l1 [THEN conjunct1, rule_format, OF a] .
  have r2: "pulse_count (OrionHeartbeat_init quiet_actions garbled_world) = PInt 0"
    using l2 [THEN conjunct2, THEN conjunct1, rule_format, OF b m] .
  have r3: "pulse_count (OrionHeartbeat_init quiet_actions partial_world) = PInt 0"
    using l3 [THEN conjunct2, THEN conjunct2, THEN conjunct2, THEN conjunct1, rule_format, OF c d] .
  from a r1 b m r2 c d r3 show ?thesis by - (intro conjI; assumption)
qed

end
